theory Spec2Isabelle
  imports Complex_Main "HOL-Library.Multiset"
begin

section \<open>Numbers, strings and vectors of the host platform\<close>

text \<open>
  JavaScript numbers are modelled as \<^typ>\<open>real\<close> (positions, delays, the cooldown, the
  frame delta) and the integral millisecond readings of \<open>Date.now()\<close> as \<^typ>\<open>int\<close>.
  Rounding of IEEE doubles is outside the model.
\<close>

subsection \<open>Template literals and \<open>parseInt\<close>\<close>

definition digit_char :: "nat \<Rightarrow> char" where
  "digit_char d = ''0123456789'' ! d"

fun decimal :: "nat \<Rightarrow> string" where
  "decimal n =
     (if n div 10 = 0 then [digit_char n]
      else decimal (n div 10) @ [digit_char (n mod 10)])"

declare decimal.simps [simp del]

text \<open>
  \<open>`${n}`\<close> for an integral number \<open>n\<close> of magnitude below \<open>10^21\<close>: a minus sign when
  negative, then the decimal digits.
\<close>

definition number_to_string :: "int \<Rightarrow> string" where
  "number_to_string n = (if n < 0 then CHR ''-'' # decimal (nat (- n)) else decimal (nat n))"

text \<open>\<open>String.prototype.split\<close> with a one-character separator.\<close>

fun split :: "char \<Rightarrow> string \<Rightarrow> string list" where
  "split c [] = [[]]"
| "split c (a # as) =
     (if a = c then [] # split c as
      else (a # hd (split c as)) # tl (split c as))"

text \<open>Array indexing: out of range reads give \<open>undefined\<close>.\<close>

definition at_index :: "'a list \<Rightarrow> nat \<Rightarrow> 'a option" where
  "at_index xs i = (if i < length xs then Some (xs ! i) else None)"

text \<open>The value of a character as a digit, for radix up to 16 (either letter case).\<close>

definition digit_table :: "(char \<times> nat) list" where
  "digit_table =
     zip ''0123456789abcdef'' [0, 1, 2, 3, 4, 5, 6, 7, 8, 9, 10, 11, 12, 13, 14, 15]
     @ zip ''ABCDEF'' [10, 11, 12, 13, 14, 15]"

definition digit_value :: "char \<Rightarrow> nat option" where
  "digit_value c = map_of digit_table c"

text \<open>
  The longest prefix of digits below the radix, read with an accumulator; the flag
  records whether a digit was seen at all.
\<close>

fun parse_digits :: "nat \<Rightarrow> nat \<Rightarrow> bool \<Rightarrow> string \<Rightarrow> nat option" where
  "parse_digits radix acc seen [] = (if seen then Some acc else None)"
| "parse_digits radix acc seen (c # cs) =
     (case digit_value c of
        None \<Rightarrow> (if seen then Some acc else None)
      | Some d \<Rightarrow>
          (if d < radix then parse_digits radix (acc * radix + d) True cs
           else (if seen then Some acc else None)))"

definition is_whitespace :: "char \<Rightarrow> bool" where
  "is_whitespace c \<longleftrightarrow> c \<in> set [CHR '' '', CHR 0x09, CHR 0x0A, CHR 0x0B, CHR 0x0C, CHR 0x0D]"

text \<open>
  \<open>parseInt(s)\<close> without a radix: leading white space is skipped, a sign is read, a
  \<open>0x\<close> prefix selects base 16, and the result is \<open>NaN\<close> (here \<open>None\<close>) when no digit
  follows. \<open>parseInt(undefined)\<close> is \<open>NaN\<close>. White space is the ASCII part of what
  JavaScript strips.
\<close>

definition parse_unsigned :: "string \<Rightarrow> nat option" where
  "parse_unsigned s =
     (case s of
        a # b # rest \<Rightarrow>
          (if a = CHR ''0'' \<and> (b = CHR ''x'' \<or> b = CHR ''X'')
           then parse_digits 16 0 False rest
           else parse_digits 10 0 False s)
      | _ \<Rightarrow> parse_digits 10 0 False s)"

definition parseInt :: "string option \<Rightarrow> int option" where
  "parseInt so =
     (case so of
        None \<Rightarrow> None
      | Some s0 \<Rightarrow>
          (case dropWhile is_whitespace s0 of
             [] \<Rightarrow> None
           | c # cs \<Rightarrow>
               (if c = CHR ''-'' then map_option (\<lambda>n. - int n) (parse_unsigned cs)
                else if c = CHR ''+'' then map_option int (parse_unsigned cs)
                else map_option int (parse_unsigned (c # cs)))))"

subsection \<open>three.js \<open>Vector3\<close> and \<open>MathUtils\<close>\<close>

datatype Vector3 = Vector3 (vx: real) (vy: real) (vz: real)

definition add_v :: "Vector3 \<Rightarrow> Vector3 \<Rightarrow> Vector3" where
  "add_v a b = Vector3 (vx a + vx b) (vy a + vy b) (vz a + vz b)"

definition subVectors :: "Vector3 \<Rightarrow> Vector3 \<Rightarrow> Vector3" where
  "subVectors a b = Vector3 (vx a - vx b) (vy a - vy b) (vz a - vz b)"

definition multiplyScalar :: "Vector3 \<Rightarrow> real \<Rightarrow> Vector3" where
  "multiplyScalar a k = Vector3 (vx a * k) (vy a * k) (vz a * k)"

definition length_v :: "Vector3 \<Rightarrow> real" where
  "length_v a = sqrt (vx a * vx a + vy a * vy a + vz a * vz a)"

text \<open>\<open>normalize\<close> divides by \<open>length() || 1\<close>: the zero vector stays zero.\<close>

definition normalize_v :: "Vector3 \<Rightarrow> Vector3" where
  "normalize_v a = multiplyScalar a (1 / (if length_v a = 0 then 1 else length_v a))"

definition distanceTo :: "Vector3 \<Rightarrow> Vector3 \<Rightarrow> real" where
  "distanceTo a b = length_v (subVectors a b)"

definition lerpVectors :: "Vector3 \<Rightarrow> Vector3 \<Rightarrow> real \<Rightarrow> Vector3" where
  "lerpVectors v1 v2 alpha =
     Vector3 (vx v1 + (vx v2 - vx v1) * alpha)
             (vy v1 + (vy v2 - vy v1) * alpha)
             (vz v1 + (vz v2 - vz v1) * alpha)"

definition smoothstep :: "real \<Rightarrow> real \<Rightarrow> real \<Rightarrow> real" where
  "smoothstep x lo hi =
     (if x \<le> lo then 0 else if x \<ge> hi then 1
      else (let t = (x - lo) / (hi - lo) in t * t * (3 - 2 * t)))"

definition atan2 :: "real \<Rightarrow> real \<Rightarrow> real" where
  "atan2 y x =
     (if x > 0 then arctan (y / x)
      else if x < 0 then (if y \<ge> 0 then arctan (y / x) + pi else arctan (y / x) - pi)
      else if y > 0 then pi / 2 else if y < 0 then - pi / 2 else 0)"

section \<open>Configuration (\<open>WINGMAN_CONFIG\<close>)\<close>

definition TEAM_SPECIAL_COOLDOWN :: real where "TEAM_SPECIAL_COOLDOWN = 45000"
definition SPAWN_OFFSET_BEHIND :: real where "SPAWN_OFFSET_BEHIND = 40"
definition SPAWN_OFFSET_ABOVE :: real where "SPAWN_OFFSET_ABOVE = 15"
definition ATTACK_DURATION :: real where "ATTACK_DURATION = 2000"
definition ESCAPE_DURATION :: real where "ESCAPE_DURATION = 1500"
definition ESCAPE_CLIMB_ANGLE :: real where "ESCAPE_CLIMB_ANGLE = 0.8"
definition BEAM_LOCK_DURATION :: real where "BEAM_LOCK_DURATION = 100"
definition LIGHTNING_CHAIN_DURATION :: real where "LIGHTNING_CHAIN_DURATION = 600"
definition MISSILE_FLIGHT_TIME :: real where "MISSILE_FLIGHT_TIME = 500"

definition WINGMAN_COLORS :: "string list" where
  "WINGMAN_COLORS = [''#ff4444'', ''#44ff44'', ''#ffff44'', ''#ff44ff'']"

definition WINGMAN_NAMES :: "string list" where
  "WINGMAN_NAMES = [''FALCO'', ''SLIPPY'', ''PEPPY'', ''KRYSTAL'']"

section \<open>Data model\<close>

record target =
  target_id :: string
  position :: Vector3

datatype effect_type = gatling | beam | lightning | missile

text \<open>
  An effect descriptor is a JavaScript object; a property that a variant does not set
  reads as \<open>undefined\<close>, here \<open>None\<close>.
\<close>

record effect =
  effect_type :: effect_type
  effect_id :: string
  startPosition :: "Vector3 option"
  targetPosition :: "Vector3 option"
  positions :: "Vector3 list option"
  delay :: real
  duration :: "real option"
  flightTime :: "real option"

record explosion =
  explosion_id :: string
  explosion_position :: Vector3
  explosion_color :: "string option"

datatype phase = idle | approach | attack | escape

text \<open>
  The props of \<open>WingmanSupport\<close>. The three callbacks are optional; the model keeps
  whether each one was supplied.
\<close>

record props =
  playerPosition :: Vector3
  playerForward :: Vector3
  enemies :: "target list"
  selectedWingman :: nat
  onActivate :: bool
  onEnemiesDestroyed :: bool
  onCooldownUpdate :: bool

text \<open>The React state and refs of \<open>WingmanSupport\<close>.\<close>

record state =
  cooldown :: real
  isActive :: bool
  phase :: phase
  wingmanPosition :: Vector3
  wingmanRotation :: "real \<times> real \<times> real"
  attackEffects :: "effect list"
  explosions :: "explosion list"
  targetEnemies :: "target list"
  phaseStartTime :: int
  attackPosition :: Vector3

text \<open>Calls of the host's callbacks, in the order they are made.\<close>

datatype notification =
    Activated nat "string option"
  | EnemiesDestroyed "string list"
  | CooldownUpdate real real

definition initial_state :: state where
  "initial_state =
     \<lparr>cooldown = 0, isActive = False, phase = idle,
      wingmanPosition = Vector3 0 0 0, wingmanRotation = (0, pi, 0),
      attackEffects = [], explosions = [], targetEnemies = [],
      phaseStartTime = 0, attackPosition = Vector3 0 0 0\<rparr>"

section \<open>Activation\<close>

definition getSpawnPosition :: "props \<Rightarrow> Vector3" where
  "getSpawnPosition pr =
     (let spawn = add_v (playerPosition pr)
                        (multiplyScalar (playerForward pr) SPAWN_OFFSET_BEHIND)
      in Vector3 (vx spawn) (vy spawn + SPAWN_OFFSET_ABOVE) (vz spawn))"

definition getAttackPosition :: "props \<Rightarrow> Vector3" where
  "getAttackPosition pr =
     (let p = playerPosition pr in Vector3 (vx p + 5) (vy p + 2) (vz p))"

text \<open>
  \<open>triggerTeamSpecial\<close>; \<open>now\<close> is the reading of \<open>Date.now()\<close>. The result is the
  returned boolean, the state after the call and the callbacks made.
\<close>

definition triggerTeamSpecial ::
  "props \<Rightarrow> int \<Rightarrow> state \<Rightarrow> bool \<times> state \<times> notification list" where
  "triggerTeamSpecial pr now s =
     (if cooldown s > 0 \<or> isActive s \<or> length (enemies pr) = 0 then (False, s, [])
      else
        (True,
         s\<lparr>isActive := True, phase := approach, phaseStartTime := now,
           wingmanPosition := getSpawnPosition pr,
           attackPosition := getAttackPosition pr,
           targetEnemies := enemies pr\<rparr>,
         (if onActivate pr
          then [Activated (selectedWingman pr) (at_index WINGMAN_NAMES (selectedWingman pr))]
          else [])))"

section \<open>Attack generator (\<open>executeAttack\<close>)\<close>

text \<open>
  \<open>rnd k\<close> is the value of the \<open>k\<close>-th call of \<open>Math.random()\<close> made by one run of
  \<open>executeAttack\<close>; the gatling case makes two calls per projectile.
\<close>

definition gatling_effect :: "Vector3 \<Rightarrow> (nat \<Rightarrow> real) \<Rightarrow> nat \<Rightarrow> target \<Rightarrow> nat \<Rightarrow> effect" where
  "gatling_effect shipPos rnd i enemy j =
     \<lparr>effect_type = gatling,
      effect_id = ''gatling-'' @ decimal i @ ''-'' @ decimal j,
      startPosition = Some (add_v shipPos
         (Vector3 ((rnd (2 * (5 * i + j)) - 0.5) * 2)
                  ((rnd (2 * (5 * i + j) + 1) - 0.5) * 1) 0)),
      targetPosition = Some (position enemy),
      positions = None,
      delay = real j * 50 + real i * 30,
      duration = None, flightTime = None\<rparr>"

definition beam_effect :: "Vector3 \<Rightarrow> nat \<Rightarrow> target \<Rightarrow> effect" where
  "beam_effect shipPos i enemy =
     \<lparr>effect_type = beam,
      effect_id = ''beam-'' @ decimal i,
      startPosition = Some shipPos,
      targetPosition = Some (position enemy),
      positions = None,
      delay = real i * 50,
      duration = Some BEAM_LOCK_DURATION, flightTime = None\<rparr>"

definition lightning_effect :: "Vector3 \<Rightarrow> target list \<Rightarrow> effect" where
  "lightning_effect shipPos ts =
     (let sortedEnemies = sort_key (\<lambda>e. distanceTo shipPos (position e)) ts;
          chainPositions = shipPos # map position sortedEnemies
      in \<lparr>effect_type = lightning,
          effect_id = ''lightning-chain'',
          startPosition = None, targetPosition = None,
          positions = Some chainPositions,
          delay = 0,
          duration = Some LIGHTNING_CHAIN_DURATION, flightTime = None\<rparr>)"

definition missile_effect :: "Vector3 \<Rightarrow> nat \<Rightarrow> target \<Rightarrow> effect" where
  "missile_effect shipPos i enemy =
     \<lparr>effect_type = missile,
      effect_id = ''missile-'' @ decimal i,
      startPosition = Some (add_v shipPos
         (Vector3 ((real (i mod 3) - 1) * 1.5) (real (i div 3) * 0.5) 0)),
      targetPosition = Some (position enemy),
      positions = None,
      delay = 0,
      duration = None, flightTime = Some MISSILE_FLIGHT_TIME\<rparr>"

text \<open>
  The switch on \<open>selectedWingman\<close>; \<open>Array.prototype.sort\<close> is stable, as is
  \<^const>\<open>sort_key\<close>. A value other than 0..3 matches no case.
\<close>

definition executeAttack ::
  "nat \<Rightarrow> target list \<Rightarrow> Vector3 \<Rightarrow> (nat \<Rightarrow> real) \<Rightarrow> effect list" where
  "executeAttack wingman ts shipPos rnd =
     (if wingman = 0 then
        concat (map (\<lambda>(i, enemy). map (gatling_effect shipPos rnd i enemy) [0..<5])
                    (enumerate 0 ts))
      else if wingman = 1 then
        map (\<lambda>(i, enemy). beam_effect shipPos i enemy) (enumerate 0 ts)
      else if wingman = 2 then
        (if length ts > 0 then [lightning_effect shipPos ts] else [])
      else if wingman = 3 then
        map (\<lambda>(i, enemy). missile_effect shipPos i enemy) (enumerate 0 ts)
      else [])"

section \<open>Main update loop (the \<open>useFrame\<close> callback of \<open>WingmanSupport\<close>)\<close>

text \<open>
  Every frame the callback receives the frame delta in seconds; \<open>now\<close> is the reading
  of \<open>Date.now()\<close> during the callback. The callback reads the state of the last render
  and queues updates; the model returns the state after those updates together with the
  callbacks made. When the same setter is called twice, the later value wins. The
  readings of \<open>Date.now()\<close> within one callback are taken to be the same instant.
\<close>

definition cooldown_tick :: "props \<Rightarrow> real \<Rightarrow> state \<Rightarrow> state \<times> notification list" where
  "cooldown_tick pr delta s =
     (if cooldown s > 0 then
        (let newCooldown = max 0 (cooldown s - delta * 1000)
         in (s\<lparr>cooldown := newCooldown\<rparr>,
             if onCooldownUpdate pr then [CooldownUpdate newCooldown TEAM_SPECIAL_COOLDOWN]
             else []))
      else (s, []))"

definition approach_case :: "props \<Rightarrow> int \<Rightarrow> (nat \<Rightarrow> real) \<Rightarrow> state \<Rightarrow> state" where
  "approach_case pr now rnd s =
     (let elapsed = real_of_int (now - phaseStartTime s);
          approachProgress = min (elapsed / 1000) 1;
          spawnPos = getSpawnPosition pr;
          newPos = lerpVectors spawnPos (attackPosition s) (smoothstep approachProgress 0 1);
          lookDir = normalize_v (subVectors (attackPosition s) newPos);
          s1 = s\<lparr>wingmanPosition := newPos,
                 wingmanRotation :=
                   (if length_v lookDir > 0.1
                    then (0, atan2 (vx lookDir) (vz lookDir) + pi, 0)
                    else wingmanRotation s)\<rparr>
      in if approachProgress \<ge> 1
         then s1\<lparr>phase := attack, phaseStartTime := now,
                 attackEffects :=
                   executeAttack (selectedWingman pr) (targetEnemies s) (attackPosition s) rnd\<rparr>
         else s1)"

definition attack_case :: "props \<Rightarrow> int \<Rightarrow> state \<Rightarrow> state \<times> notification list" where
  "attack_case pr now s =
     (let elapsed = real_of_int (now - phaseStartTime s)
      in if elapsed > ATTACK_DURATION
         then (s\<lparr>phase := escape, phaseStartTime := now\<rparr>,
               if onEnemiesDestroyed pr then [EnemiesDestroyed (map target_id (targetEnemies s))]
               else [])
         else (s, []))"

definition escape_case :: "int \<Rightarrow> state \<Rightarrow> state" where
  "escape_case now s =
     (let elapsed = real_of_int (now - phaseStartTime s);
          escapeProgress = min (elapsed / ESCAPE_DURATION) 1;
          a = attackPosition s;
          escapePos = Vector3 (vx a) (vy a + escapeProgress * 50) (vz a + escapeProgress * 30);
          s1 = s\<lparr>wingmanPosition := escapePos,
                 wingmanRotation := (- ESCAPE_CLIMB_ANGLE, pi, 0)\<rparr>
      in if escapeProgress \<ge> 1
         then s1\<lparr>phase := idle, isActive := False, cooldown := TEAM_SPECIAL_COOLDOWN,
                 attackEffects := [], targetEnemies := []\<rparr>
         else s1)"

definition useFrame ::
  "props \<Rightarrow> int \<Rightarrow> real \<Rightarrow> (nat \<Rightarrow> real) \<Rightarrow> state \<Rightarrow> state \<times> notification list" where
  "useFrame pr now delta rnd s =
     (let (s1, n1) = cooldown_tick pr delta s
      in if \<not> isActive s then (s1, n1)
         else (case phase s of
                 approach \<Rightarrow> (approach_case pr now rnd s1, n1)
               | attack \<Rightarrow> (let (s2, n2) = attack_case pr now s1 in (s2, n1 @ n2))
               | escape \<Rightarrow> (escape_case now s1, n1)
               | idle \<Rightarrow> (s1, n1)))"

section \<open>Effect tracker and cleanup\<close>

text \<open>
  \<open>handleEffectComplete(effectId)\<close>. The removal from the live set is a state updater
  and works on the current state; the lookup of the effect reads \<open>attackEffects\<close> as
  it was in the render that created the callback, here \<open>rendered\<close>, and the colour is
  chosen by the props of that render. \<open>rnd_text\<close> is the text of the \<open>Math.random()\<close>
  value interpolated into the explosion id.
\<close>

definition handleEffectComplete ::
  "props \<Rightarrow> effect list \<Rightarrow> string \<Rightarrow> int \<Rightarrow> string \<Rightarrow> state \<Rightarrow> state" where
  "handleEffectComplete pr rendered effectId now rnd_text s =
     (let s1 = s\<lparr>attackEffects := filter (\<lambda>e. effect_id e \<noteq> effectId) (attackEffects s)\<rparr>
      in case find (\<lambda>e. effect_id e = effectId) rendered of
           None \<Rightarrow> s1
         | Some e \<Rightarrow>
             (case targetPosition e of
                None \<Rightarrow> s1
              | Some tp \<Rightarrow>
                  s1\<lparr>explosions := explosions s @
                       [\<lparr>explosion_id = ''explosion-'' @ number_to_string now @ ''-'' @ rnd_text,
                         explosion_position = tp,
                         explosion_color = at_index WINGMAN_COLORS (selectedWingman pr)\<rparr>]\<rparr>))"

text \<open>
  \<open>handleLightningComplete\<close> empties the live set and schedules one timer per snapshot
  target, \<open>i * 50\<close> ms ahead; the second component lists these timers as
  (delay, index, target). \<open>lightning_explosion\<close> is the timer's callback.
\<close>

definition handleLightningComplete :: "state \<Rightarrow> state \<times> (real \<times> nat \<times> target) list" where
  "handleLightningComplete s =
     (s\<lparr>attackEffects := []\<rparr>,
      map (\<lambda>(i, enemy). (real i * 50, i, enemy)) (enumerate 0 (targetEnemies s)))"

definition lightning_explosion :: "int \<Rightarrow> nat \<Rightarrow> target \<Rightarrow> state \<Rightarrow> state" where
  "lightning_explosion now i enemy s =
     s\<lparr>explosions := explosions s @
        [\<lparr>explosion_id = ''explosion-'' @ number_to_string now @ ''-'' @ decimal i,
          explosion_position = position enemy,
          explosion_color = Some ''#ffff00''\<rparr>]\<rparr>"

text \<open>The sweeper runs from \<open>setInterval\<close> with this period (ms).\<close>

definition CLEANUP_INTERVAL :: real where "CLEANUP_INTERVAL = 100"

definition explosion_retained :: "int \<Rightarrow> explosion \<Rightarrow> bool" where
  "explosion_retained now e =
     (case parseInt (at_index (split CHR ''-'' (explosion_id e)) 1) of
        None \<Rightarrow> False
      | Some t \<Rightarrow> now - t < 600)"

definition cleanup :: "int \<Rightarrow> state \<Rightarrow> state" where
  "cleanup now s = s\<lparr>explosions := filter (explosion_retained now) (explosions s)\<rparr>"

text \<open>
  An explosion whose id carries the clock reading \<open>created\<close> as its second token, as
  seen by the sweeper at clock reading \<open>now\<close>.
\<close>

definition embeds_timestamp :: "int \<Rightarrow> int \<Rightarrow> explosion \<Rightarrow> bool" where
  "embeds_timestamp created now e \<longleftrightarrow>
     at_index (split CHR ''-'' (explosion_id e)) 1 = Some (number_to_string created)
     \<and> parseInt (Some (number_to_string created)) = Some created
     \<and> (explosion_retained now e \<longleftrightarrow> now - created < 600)"

section \<open>Effect instances\<close>

text \<open>
  Times are in ms. \<open>setTimeout(f, d)\<close> called at time \<open>t\<close> makes a timer due at \<open>t + d\<close>; its
  callback runs at some time not before that, unless \<open>clearTimeout\<close> removed the timer.
  An undefined delay counts as 0.
\<close>

definition timeout_of :: "real option \<Rightarrow> real" where
  "timeout_of d = (case d of None \<Rightarrow> 0 | Some t \<Rightarrow> t)"

subsection \<open>\<open>GatlingProjectile\<close>\<close>

text \<open>
  The start timer's callback activates the projectile: the mesh appears at the start
  position and the direction towards the target is fixed. Every render of the component
  passes a fresh clone of \<open>startPosition\<close> as the mesh's position prop, so a re-render
  of an active projectile puts the mesh back at the start position. Every frame an
  active projectile moves \<open>speed * delta\<close> along its direction and calls \<open>onComplete(id)\<close>
  when it is then closer than 2 to the target; nothing keeps it from calling again on a
  later frame.
\<close>

record gatling_instance =
  g_active :: bool
  g_position :: Vector3
  g_direction :: Vector3

definition gatling_speed :: real where "gatling_speed = 120"

definition gatling_mount :: "Vector3 \<Rightarrow> gatling_instance" where
  "gatling_mount startPos =
     \<lparr>g_active = False, g_position = startPos, g_direction = Vector3 0 0 0\<rparr>"

definition gatling_activate :: "Vector3 \<Rightarrow> Vector3 \<Rightarrow> gatling_instance \<Rightarrow> gatling_instance" where
  "gatling_activate startPos targetPos g =
     g\<lparr>g_active := True, g_position := startPos,
       g_direction := normalize_v (subVectors targetPos startPos)\<rparr>"

definition gatling_render :: "Vector3 \<Rightarrow> gatling_instance \<Rightarrow> gatling_instance" where
  "gatling_render startPos g = (if g_active g then g\<lparr>g_position := startPos\<rparr> else g)"

text \<open>The frame callback; the boolean tells whether \<open>onComplete\<close> was called.\<close>

definition gatling_frame :: "Vector3 \<Rightarrow> real \<Rightarrow> gatling_instance \<Rightarrow> gatling_instance \<times> bool" where
  "gatling_frame targetPos delta g =
     (if \<not> g_active g then (g, False)
      else
        (let p = add_v (g_position g) (multiplyScalar (g_direction g) (gatling_speed * delta));
             distanceToTarget = distanceTo p targetPos
         in (g\<lparr>g_position := p\<rparr>, distanceToTarget < 2)))"

text \<open>
  Successive frames of an instance that stays mounted. Each frame comes with its delta
  and with whether the component was rendered again since the frame before. The result
  lists, frame by frame, whether \<open>onComplete\<close> was called.
\<close>

fun gatling_frames ::
  "Vector3 \<Rightarrow> Vector3 \<Rightarrow> (bool \<times> real) list \<Rightarrow> gatling_instance \<Rightarrow> bool list" where
  "gatling_frames startPos targetPos [] g = []"
| "gatling_frames startPos targetPos ((rerendered, delta) # frames) g =
     (let g0 = (if rerendered then gatling_render startPos g else g);
          r = gatling_frame targetPos delta g0
      in snd r # gatling_frames startPos targetPos frames (fst r))"

subsection \<open>\<open>BeamEffect\<close>\<close>

text \<open>
  The effect of \<open>BeamEffect\<close> sets the start timer (\<open>delay\<close>); its cleanup clears that
  timer. The effect depends on \<open>onComplete\<close>, so it runs again, cleanup first, whenever
  the completion handler of the parent is a new function. The start timer's callback
  marks the beam active and sets an end timer (\<open>duration\<close>); the end timer's callback marks
  the beam completed and calls \<open>onComplete(id)\<close>. Nothing ever clears an end timer (the
  function returned from inside the timer callback is discarded).
\<close>

record beam_instance =
  b_mounted :: bool
  b_active :: bool
  b_completed :: bool
  b_startTimer :: "real option"
  b_endTimers :: "real list"

datatype beam_event = BeamDepsChange | BeamStartTimer | BeamEndTimer | BeamUnmount

definition beam_mount :: "real \<Rightarrow> effect \<Rightarrow> beam_instance" where
  "beam_mount t e =
     \<lparr>b_mounted = True, b_active = False, b_completed = False,
      b_startTimer = Some (t + delay e), b_endTimers = []\<rparr>"

text \<open>
  One event at time \<open>t\<close>; \<open>None\<close> when the event cannot happen (no such timer pending, or
  not yet due, or the component is gone). The boolean tells whether \<open>onComplete\<close> was
  called.
\<close>

fun beam_step :: "effect \<Rightarrow> real \<Rightarrow> beam_event \<Rightarrow> beam_instance \<Rightarrow> (beam_instance \<times> bool) option" where
  "beam_step e t BeamDepsChange b =
     (if b_mounted b then Some (b\<lparr>b_startTimer := Some (t + delay e)\<rparr>, False) else None)"
| "beam_step e t BeamStartTimer b =
     (case b_startTimer b of
        None \<Rightarrow> None
      | Some due \<Rightarrow>
          (if due \<le> t
           then Some (b\<lparr>b_active := True, b_startTimer := None,
                        b_endTimers := b_endTimers b @ [t + timeout_of (duration e)]\<rparr>, False)
           else None))"
| "beam_step e t BeamEndTimer b =
     (case b_endTimers b of
        [] \<Rightarrow> None
      | due # rest \<Rightarrow>
          (if due \<le> t then Some (b\<lparr>b_completed := True, b_endTimers := rest\<rparr>, True)
           else None))"
| "beam_step e t BeamUnmount b =
     (if b_mounted b then Some (b\<lparr>b_mounted := False, b_startTimer := None\<rparr>, False) else None)"

text \<open>
  A run of events with their times, starting at time \<open>clock\<close>; time does not go back.
  The result lists the times at which \<open>onComplete\<close> was called.
\<close>

fun beam_run :: "effect \<Rightarrow> real \<Rightarrow> (real \<times> beam_event) list \<Rightarrow> beam_instance \<Rightarrow> real list option" where
  "beam_run e clock [] b = Some []"
| "beam_run e clock ((t, ev) # rest) b =
     (if t < clock then None
      else (case beam_step e t ev b of
              None \<Rightarrow> None
            | Some (b1, called) \<Rightarrow>
                (case beam_run e t rest b1 of
                   None \<Rightarrow> None
                 | Some calls \<Rightarrow> Some (if called then t # calls else calls))))"

subsection \<open>\<open>LightningChain\<close>\<close>

text \<open>
  Three chained timers: the start timer (\<open>delay\<close>) marks the chain active and sets the
  explode timer (\<open>duration\<close>), whose callback switches to the explode phase and sets the
  complete timer (500), whose callback calls \<open>onComplete()\<close>. The effect's cleanup clears
  the start timer only. The effect depends on \<open>onComplete\<close> and \<open>positions\<close>.
\<close>

record chain_instance =
  c_mounted :: bool
  c_active :: bool
  c_exploding :: bool
  c_startTimer :: "real option"
  c_explodeTimers :: "real list"
  c_completeTimers :: "real list"

datatype chain_event =
  ChainDepsChange | ChainStartTimer | ChainExplodeTimer | ChainCompleteTimer | ChainUnmount

definition chain_mount :: "real \<Rightarrow> effect \<Rightarrow> chain_instance" where
  "chain_mount t e =
     \<lparr>c_mounted = True, c_active = False, c_exploding = False,
      c_startTimer = Some (t + delay e), c_explodeTimers = [], c_completeTimers = []\<rparr>"

fun chain_step :: "effect \<Rightarrow> real \<Rightarrow> chain_event \<Rightarrow> chain_instance \<Rightarrow> (chain_instance \<times> bool) option" where
  "chain_step e t ChainDepsChange c =
     (if c_mounted c then Some (c\<lparr>c_startTimer := Some (t + delay e)\<rparr>, False) else None)"
| "chain_step e t ChainStartTimer c =
     (case c_startTimer c of
        None \<Rightarrow> None
      | Some due \<Rightarrow>
          (if due \<le> t
           then Some (c\<lparr>c_active := True, c_startTimer := None,
                        c_explodeTimers := c_explodeTimers c @ [t + timeout_of (duration e)]\<rparr>,
                      False)
           else None))"
| "chain_step e t ChainExplodeTimer c =
     (case c_explodeTimers c of
        [] \<Rightarrow> None
      | due # rest \<Rightarrow>
          (if due \<le> t
           then Some (c\<lparr>c_exploding := True, c_explodeTimers := rest,
                        c_completeTimers := c_completeTimers c @ [t + 500]\<rparr>, False)
           else None))"
| "chain_step e t ChainCompleteTimer c =
     (case c_completeTimers c of
        [] \<Rightarrow> None
      | due # rest \<Rightarrow>
          (if due \<le> t then Some (c\<lparr>c_completeTimers := rest\<rparr>, True) else None))"
| "chain_step e t ChainUnmount c =
     (if c_mounted c then Some (c\<lparr>c_mounted := False, c_startTimer := None\<rparr>, False) else None)"

fun chain_run :: "effect \<Rightarrow> real \<Rightarrow> (real \<times> chain_event) list \<Rightarrow> chain_instance \<Rightarrow> real list option" where
  "chain_run e clock [] c = Some []"
| "chain_run e clock ((t, ev) # rest) c =
     (if t < clock then None
      else (case chain_step e t ev c of
              None \<Rightarrow> None
            | Some (c1, called) \<Rightarrow>
                (case chain_run e t rest c1 of
                   None \<Rightarrow> None
                 | Some calls \<Rightarrow> Some (if called then t # calls else calls))))"

subsection \<open>\<open>Missile\<close>\<close>

text \<open>
  The start timer's callback marks the missile active and records the clock reading as
  \<open>startTime\<close>. A frame of an active, unexploded missile places it on the arc and, once
  the flight progress reaches 1, marks it exploded and sets a timer of 300 for
  \<open>onComplete(id)\<close> that nothing clears; the second component is the due time of the
  timer set on this frame, if any. An undefined flight time makes the progress \<open>NaN\<close>,
  which never reaches 1; the generator always supplies a positive one. The state updates
  queued on a frame are taken to be committed before the next frame.
\<close>

record missile_instance =
  m_active :: bool
  m_exploded :: bool
  m_startTime :: int
  m_position :: Vector3

definition missile_start :: "int \<Rightarrow> missile_instance \<Rightarrow> missile_instance" where
  "missile_start now m = m\<lparr>m_active := True, m_startTime := now\<rparr>"

definition missile_frame ::
  "Vector3 \<Rightarrow> Vector3 \<Rightarrow> real option \<Rightarrow> int \<Rightarrow> missile_instance
     \<Rightarrow> missile_instance \<times> real option" where
  "missile_frame initialPos targetPos flight now m =
     (if \<not> m_active m \<or> m_exploded m then (m, None)
      else
        (case flight of
           None \<Rightarrow> (m, None)
         | Some ft \<Rightarrow>
             (let elapsed = real_of_int (now - m_startTime m);
                  progress = min (elapsed / ft) 1;
                  arcProgress = sin (progress * pi);
                  l = lerpVectors initialPos targetPos progress;
                  currentPos = Vector3 (vx l) (vy l + arcProgress * 5) (vz l);
                  m1 = m\<lparr>m_position := currentPos\<rparr>
              in if progress \<ge> 1
                 then (m1\<lparr>m_exploded := True\<rparr>, Some (real_of_int now + 300))
                 else (m1, None))))"

text \<open>The due times of the completion timers set over successive frames.\<close>

fun missile_frames ::
  "Vector3 \<Rightarrow> Vector3 \<Rightarrow> real option \<Rightarrow> int list \<Rightarrow> missile_instance \<Rightarrow> real list" where
  "missile_frames initialPos targetPos flight [] m = []"
| "missile_frames initialPos targetPos flight (now # nows) m =
     (let r = missile_frame initialPos targetPos flight now m
      in (case snd r of None \<Rightarrow> [] | Some due \<Rightarrow> [due])
         @ missile_frames initialPos targetPos flight nows (fst r))"

section \<open>Runs of the component\<close>

text \<open>
  The component changes state only through its callbacks. A run is a list of callback
  invocations, each with the props of the render it belongs to and the clock readings
  it makes.
\<close>

datatype op =
    Frame props int real "nat \<Rightarrow> real"
  | Trigger props int
  | EffectComplete props "effect list" string int string
  | LightningComplete
  | LightningExplosion int nat target
  | Cleanup int

fun step :: "op \<Rightarrow> state \<Rightarrow> state \<times> notification list" where
  "step (Frame pr now delta rnd) s = useFrame pr now delta rnd s"
| "step (Trigger pr now) s = snd (triggerTeamSpecial pr now s)"
| "step (EffectComplete pr rendered effectId now rnd_text) s =
     (handleEffectComplete pr rendered effectId now rnd_text s, [])"
| "step LightningComplete s = (fst (handleLightningComplete s), [])"
| "step (LightningExplosion now i enemy) s = (lightning_explosion now i enemy s, [])"
| "step (Cleanup now) s = (cleanup now s, [])"

fun exec :: "op list \<Rightarrow> state \<Rightarrow> state \<times> notification list" where
  "exec [] s = (s, [])"
| "exec (a # as) s =
     (let (s1, n1) = step a s; (s2, n2) = exec as s1 in (s2, n1 @ n2))"

fun is_trigger :: "op \<Rightarrow> bool" where
  "is_trigger (Trigger pr now) = True"
| "is_trigger _ = False"

fun is_frame :: "op \<Rightarrow> bool" where
  "is_frame (Frame pr now delta rnd) = True"
| "is_frame _ = False"

section \<open>Reachable states and a reference scenario\<close>

text \<open>
  What every state reached from the initial render satisfies: the active flag and the
  phase agree, and the cooldown is zero while an activation is in progress.
\<close>

definition wf_state :: "state \<Rightarrow> bool" where
  "wf_state s \<longleftrightarrow>
     (isActive s \<longleftrightarrow> phase s \<noteq> idle) \<and> (isActive s \<longrightarrow> cooldown s = 0) \<and> 0 \<le> cooldown s"

text \<open>While an activation is in progress the snapshot is the list \<open>E\<close>.\<close>

definition holds_snapshot :: "target list \<Rightarrow> state \<Rightarrow> bool" where
  "holds_snapshot E s \<longleftrightarrow> (isActive s \<longrightarrow> targetEnemies s = E)"

text \<open>
  A two-target scenario with the enemy positions of the README example: the player at
  the origin facing \<open>-z\<close>, every callback supplied, and the activation accepted at clock
  reading 0.
\<close>

definition scenario_targets :: "target list" where
  "scenario_targets =
     [\<lparr>target_id = ''a'', position = Vector3 0 0 (-30)\<rparr>,
      \<lparr>target_id = ''b'', position = Vector3 5 2 (-35)\<rparr>]"

definition scenario_props :: "nat \<Rightarrow> props" where
  "scenario_props w =
     \<lparr>playerPosition = Vector3 0 0 0, playerForward = Vector3 0 0 (-1),
      enemies = scenario_targets, selectedWingman = w,
      onActivate = True, onEnemiesDestroyed = True, onCooldownUpdate = True\<rparr>"

definition scenario_active :: "nat \<Rightarrow> state" where
  "scenario_active w = fst (snd (triggerTeamSpecial (scenario_props w) 0 initial_state))"

text \<open>
  One full cycle of the scenario, keeping only the frames that change the phase:
  accepted at 0, attack entered at 1000, escape entered at 3001, idle again at 4501.
\<close>

definition scenario_frame :: "nat \<Rightarrow> int \<Rightarrow> op" where
  "scenario_frame w now = Frame (scenario_props w) now (1/10) (\<lambda>k. 1/2)"

definition scenario_cycle :: "nat \<Rightarrow> op list" where
  "scenario_cycle w =
     [Trigger (scenario_props w) 0, scenario_frame w 1000, scenario_frame w 3001,
      scenario_frame w 4501]"

section \<open>Runs through one activation\<close>

text \<open>The callbacks that report a completion to the tracker.\<close>

fun is_completion :: "op \<Rightarrow> bool" where
  "is_completion (EffectComplete pr rendered effectId now rnd_text) = True"
| "is_completion LightningComplete = True"
| "is_completion _ = False"

text \<open>Live instances have pairwise distinct ids.\<close>

definition distinct_ids :: "state \<Rightarrow> bool" where
  "distinct_ids s \<longleftrightarrow> distinct (map effect_id (attackEffects s))"

text \<open>An activation in its escape phase since \<open>t0\<close>, with live set \<open>effs\<close>.\<close>

definition escaping :: "int \<Rightarrow> effect list \<Rightarrow> state \<Rightarrow> bool" where
  "escaping t0 effs s \<longleftrightarrow>
     isActive s \<and> phase s = escape \<and> cooldown s = 0 \<and> phaseStartTime s = t0
     \<and> attackEffects s = effs"

text \<open>
  Runs at ten frames per second for a given snapshot and variant: the player at the
  origin facing \<open>-z\<close>, \<open>Math.random()\<close> returning 0.5 (no jitter), the activation accepted
  at 0 and the attack phase entered by the frame at 1000, which creates the instances.
\<close>

definition arena_props :: "target list \<Rightarrow> nat \<Rightarrow> props" where
  "arena_props ts w =
     \<lparr>playerPosition = Vector3 0 0 0, playerForward = Vector3 0 0 (-1),
      enemies = ts, selectedWingman = w,
      onActivate = True, onEnemiesDestroyed = True, onCooldownUpdate = True\<rparr>"

definition arena_frame :: "target list \<Rightarrow> nat \<Rightarrow> int \<Rightarrow> op" where
  "arena_frame ts w now = Frame (arena_props ts w) now (1/10) (\<lambda>k. 1/2)"

definition arena_entry :: "target list \<Rightarrow> nat \<Rightarrow> op list" where
  "arena_entry ts w = [Trigger (arena_props ts w) 0, arena_frame ts w 1000]"

text \<open>
  The 21 frames from 1100 to 3100: the attack phase holds through the frame at 3000 and
  the frame at 3100 is the first past the dwell. Then the 15 frames from 3200 to 4600;
  the one at 4600 leaves the escape phase.
\<close>

definition dwell_times :: "int list" where
  "dwell_times = map (\<lambda>k. 1000 + 100 * int k) [1..<22]"

definition escape_times :: "int list" where
  "escape_times = map (\<lambda>k. 1000 + 100 * int k) [22..<37]"

definition arena_dwell :: "target list \<Rightarrow> nat \<Rightarrow> op list" where
  "arena_dwell ts w = arena_entry ts w @ map (arena_frame ts w) dwell_times"

definition arena_run :: "target list \<Rightarrow> nat \<Rightarrow> op list" where
  "arena_run ts w = arena_dwell ts w @ map (arena_frame ts w) escape_times"

text \<open>One target 1000 ahead of the attack pose, for RapidBurst.\<close>

definition far_targets :: "target list" where
  "far_targets = [\<lparr>target_id = ''far'', position = Vector3 5 2 (-1000)\<rparr>]"

definition far_projectile :: effect where
  "far_projectile = hd (attackEffects (fst (exec (arena_entry far_targets 0) initial_state)))"

text \<open>A snapshot of \<open>n\<close> distinct targets in a row, for PrecisionBeam.\<close>

definition beam_targets :: "nat \<Rightarrow> target list" where
  "beam_targets n =
     map (\<lambda>k. \<lparr>target_id = ''t'' @ decimal k, position = Vector3 0 0 (- 30 - real k)\<rparr>) [0..<n]"

definition crowd_beam :: effect where
  "crowd_beam = attackEffects (fst (exec (arena_entry (beam_targets 80) 1) initial_state)) ! 79"

section \<open>Timer invariants\<close>

text \<open>
  For an instance mounted at \<open>t0\<close>: no pending start timer is due before \<open>t0 + delay\<close> and
  no pending end timer before \<open>t0 + delay + duration\<close>.
\<close>

definition beam_not_before :: "real \<Rightarrow> effect \<Rightarrow> beam_instance \<Rightarrow> bool" where
  "beam_not_before t0 e b \<longleftrightarrow>
     (\<forall>d. b_startTimer b = Some d \<longrightarrow> t0 + delay e \<le> d)
     \<and> (\<forall>d\<in>set (b_endTimers b). t0 + delay e + timeout_of (duration e) \<le> d)"

definition beam_pending :: "beam_instance \<Rightarrow> nat" where
  "beam_pending b = (case b_startTimer b of None \<Rightarrow> 0 | Some d \<Rightarrow> 1) + length (b_endTimers b)"

definition chain_not_before :: "real \<Rightarrow> effect \<Rightarrow> chain_instance \<Rightarrow> bool" where
  "chain_not_before t0 e c \<longleftrightarrow>
     (\<forall>d. c_startTimer c = Some d \<longrightarrow> t0 + delay e \<le> d)
     \<and> (\<forall>d\<in>set (c_explodeTimers c). t0 + delay e + timeout_of (duration e) \<le> d)
     \<and> (\<forall>d\<in>set (c_completeTimers c). t0 + delay e + timeout_of (duration e) + 500 \<le> d)"

definition chain_pending :: "chain_instance \<Rightarrow> nat" where
  "chain_pending c =
     (case c_startTimer c of None \<Rightarrow> 0 | Some d \<Rightarrow> 1)
     + length (c_explodeTimers c) + length (c_completeTimers c)"

section \<open>Verification\<close>

subsection \<open>Vectors along one axis\<close>

lemma length_v_z: "length_v (Vector3 0 0 c) = \<bar>c\<bar>"
  by (simp add: length_v_def)

lemma distanceTo_z: "distanceTo (Vector3 a b c) (Vector3 a b d) = \<bar>c - d\<bar>"
  by (simp add: distanceTo_def subVectors_def length_v_def)

subsection \<open>Attack generator\<close>

lemma length_concat_const:
  "(\<And>x. x \<in> set xs \<Longrightarrow> length (f x) = k) \<Longrightarrow> length (concat (map f xs)) = k * length xs"
  by (induction xs) auto

text \<open>
  Claim C4. For a snapshot of \<open>N\<close> targets and any origin, the generator yields \<open>5 * N\<close>
  descriptors for RapidBurst (wingman 0), \<open>N\<close> for PrecisionBeam (1) and HomingSwarm (3),
  and for ChainedArc (2) one descriptor when \<open>N \<ge> 1\<close> and none when \<open>N = 0\<close>.
\<close>

theorem executeAttack_descriptor_count:
  "length (executeAttack 0 ts shipPos rnd) = 5 * length ts
   \<and> length (executeAttack 1 ts shipPos rnd) = length ts
   \<and> length (executeAttack 3 ts shipPos rnd) = length ts
   \<and> length (executeAttack 2 ts shipPos rnd) = (if length ts \<ge> 1 then 1 else 0)"
proof -
  have "length (concat (map (\<lambda>(i, enemy). map (gatling_effect shipPos rnd i enemy) [0..<5])
                            (enumerate 0 ts))) = 5 * length (enumerate 0 ts)"
    by (rule length_concat_const) auto
  then show ?thesis
    by (cases ts) (simp_all add: executeAttack_def)
qed

text \<open>
  Claim C8. For ChainedArc with a non-empty snapshot the single descriptor has start
  delay 0, the fixed chain duration, and a position sequence that is the origin followed
  by all snapshot target positions in ascending distance from the origin.
\<close>

theorem executeAttack_chain_descriptor:
  assumes "ts \<noteq> []"
  shows "\<exists>e. executeAttack 2 ts shipPos rnd = [e]
     \<and> effect_type e = lightning
     \<and> delay e = 0
     \<and> duration e = Some LIGHTNING_CHAIN_DURATION
     \<and> (\<exists>ps. positions e = Some (shipPos # ps)
          \<and> mset ps = mset (map position ts)
          \<and> sorted (map (distanceTo shipPos) ps))"
proof -
  let ?key = "\<lambda>e. distanceTo shipPos (position e)"
  let ?ps = "map position (sort_key ?key ts)"
  have perm: "mset ?ps = mset (map position ts)"
    by simp
  have "map (distanceTo shipPos) ?ps = map ?key (sort_key ?key ts)"
    by simp
  then have srt: "sorted (map (distanceTo shipPos) ?ps)"
    by (simp only: sorted_sort_key)
  from assms perm srt show ?thesis
    by (simp add: executeAttack_def lightning_effect_def Let_def)
qed

theorem executeAttack_chain_descriptor_witness:
  "[\<lparr>target_id = ''a'', position = Vector3 0 0 (-30)\<rparr>,
    \<lparr>target_id = ''b'', position = Vector3 0 0 (-10)\<rparr>] \<noteq> []
   \<and> (\<exists>e. executeAttack 2
          [\<lparr>target_id = ''a'', position = Vector3 0 0 (-30)\<rparr>,
           \<lparr>target_id = ''b'', position = Vector3 0 0 (-10)\<rparr>] (Vector3 0 0 0) (\<lambda>k. 1/2) = [e]
     \<and> effect_type e = lightning
     \<and> delay e = 0
     \<and> duration e = Some LIGHTNING_CHAIN_DURATION
     \<and> (\<exists>ps. positions e = Some (Vector3 0 0 0 # ps)
          \<and> mset ps = mset (map position
               [\<lparr>target_id = ''a'', position = Vector3 0 0 (-30)\<rparr>,
                \<lparr>target_id = ''b'', position = Vector3 0 0 (-10)\<rparr>])
          \<and> sorted (map (distanceTo (Vector3 0 0 0)) ps)))
   \<and> positions (hd (executeAttack 2
          [\<lparr>target_id = ''a'', position = Vector3 0 0 (-30)\<rparr>,
           \<lparr>target_id = ''b'', position = Vector3 0 0 (-10)\<rparr>] (Vector3 0 0 0) (\<lambda>k. 1/2)))
       = Some [Vector3 0 0 0, Vector3 0 0 (-10), Vector3 0 0 (-30)]"
proof -
  let ?ts = "[\<lparr>target_id = ''a'', position = Vector3 0 0 (-30)\<rparr>,
              \<lparr>target_id = ''b'', position = Vector3 0 0 (-10)\<rparr>]"
  have ne: "?ts \<noteq> []" by simp
  have ev: "positions (hd (executeAttack 2 ?ts (Vector3 0 0 0) (\<lambda>k. 1/2)))
       = Some [Vector3 0 0 0, Vector3 0 0 (-10), Vector3 0 0 (-30)]"
    by (simp add: executeAttack_def lightning_effect_def Let_def distanceTo_z)
  from executeAttack_chain_descriptor [OF ne, of "Vector3 0 0 0" "\<lambda>k. 1/2"] ne ev
  show ?thesis by blast
qed

subsection \<open>Invariants of the ability state machine\<close>

lemma wf_state_initial: "wf_state initial_state"
  by (simp add: wf_state_def initial_state_def)

lemma useFrame_wf: "wf_state s \<Longrightarrow> wf_state (fst (useFrame pr now delta rnd s))"
  by (auto simp add: wf_state_def useFrame_def cooldown_tick_def approach_case_def attack_case_def
      escape_case_def Let_def TEAM_SPECIAL_COOLDOWN_def split: phase.splits prod.splits if_splits)

lemma trigger_wf: "wf_state s \<Longrightarrow> wf_state (fst (snd (triggerTeamSpecial pr now s)))"
  by (auto simp add: wf_state_def triggerTeamSpecial_def)

lemma step_wf: "wf_state s \<Longrightarrow> wf_state (fst (step a s))"
proof (cases a)
  case (Frame pr now delta rnd)
  assume "wf_state s"
  with Frame show ?thesis by (simp add: useFrame_wf)
next
  case (Trigger pr now)
  assume "wf_state s"
  with Trigger show ?thesis by (simp add: trigger_wf)
next
  case (EffectComplete pr rendered eid now rtext)
  assume "wf_state s"
  with EffectComplete show ?thesis
    by (auto simp add: wf_state_def handleEffectComplete_def Let_def split: option.splits)
next
  case LightningComplete
  assume "wf_state s"
  with LightningComplete show ?thesis by (simp add: wf_state_def handleLightningComplete_def)
next
  case (LightningExplosion now i enemy)
  assume "wf_state s"
  with LightningExplosion show ?thesis by (simp add: wf_state_def lightning_explosion_def)
next
  case (Cleanup now)
  assume "wf_state s"
  with Cleanup show ?thesis by (simp add: wf_state_def cleanup_def)
qed

lemma exec_wf: "wf_state s \<Longrightarrow> wf_state (fst (exec ops s))"
proof (induction ops arbitrary: s)
  case Nil
  then show ?case by simp
next
  case (Cons a ops)
  from Cons.prems have "wf_state (fst (step a s))" by (rule step_wf)
  then have "wf_state (fst (exec ops (fst (step a s))))" by (rule Cons.IH)
  then show ?case by (simp add: split_beta Let_def)
qed

lemma reachable_wf: "wf_state (fst (exec ops initial_state))"
  by (rule exec_wf) (rule wf_state_initial)

subsection \<open>The reference scenario, evaluated\<close>

lemma scenario_trigger:
  "triggerTeamSpecial (scenario_props w) 0 initial_state =
     (True, scenario_active w, [Activated w (at_index WINGMAN_NAMES w)])"
  by (simp add: scenario_active_def triggerTeamSpecial_def initial_state_def scenario_props_def
      scenario_targets_def)

lemma scenario_active_eq:
  "scenario_active w =
     \<lparr>cooldown = 0, isActive = True, phase = approach,
      wingmanPosition = Vector3 0 15 (-40), wingmanRotation = (0, pi, 0),
      attackEffects = [], explosions = [], targetEnemies = scenario_targets,
      phaseStartTime = 0, attackPosition = Vector3 5 2 0\<rparr>"
  by (simp add: scenario_active_def triggerTeamSpecial_def initial_state_def scenario_props_def
      scenario_targets_def getSpawnPosition_def getAttackPosition_def add_v_def
      multiplyScalar_def SPAWN_OFFSET_BEHIND_def SPAWN_OFFSET_ABOVE_def Let_def)

lemma scenario_attack_entry:
  "phase (fst (useFrame (scenario_props w) 1000 (1/10) rnd (scenario_active w))) = attack
   \<and> isActive (fst (useFrame (scenario_props w) 1000 (1/10) rnd (scenario_active w)))
   \<and> cooldown (fst (useFrame (scenario_props w) 1000 (1/10) rnd (scenario_active w))) = 0
   \<and> phaseStartTime (fst (useFrame (scenario_props w) 1000 (1/10) rnd (scenario_active w))) = 1000
   \<and> targetEnemies (fst (useFrame (scenario_props w) 1000 (1/10) rnd (scenario_active w))) = scenario_targets"
  by (simp add: scenario_active_eq useFrame_def cooldown_tick_def approach_case_def Let_def)

subsection \<open>Rejected activations\<close>

text \<open>
  Claim C2. In every state the component can reach, a call of \<open>triggerTeamSpecial\<close>
  made while the phase is not idle, or while the cooldown is positive, or with an empty
  target list returns \<open>false\<close>, makes no callback and leaves the whole state (phase,
  cooldown, snapshot and everything else) as it was.
\<close>

theorem activate_rejected:
  assumes "s = fst (exec ops initial_state)"
    and "phase s \<noteq> idle \<or> cooldown s > 0 \<or> enemies pr = []"
  shows "triggerTeamSpecial pr now s = (False, s, [])"
proof -
  from assms(1) have "wf_state s" by (simp add: reachable_wf)
  with assms(2) show ?thesis
    by (auto simp add: wf_state_def triggerTeamSpecial_def)
qed

theorem activate_rejected_witness:
  "phase (fst (exec [Trigger (scenario_props 0) 0] initial_state)) \<noteq> idle
   \<and> triggerTeamSpecial (scenario_props 0) 7 (fst (exec [Trigger (scenario_props 0) 0] initial_state))
       = (False, fst (exec [Trigger (scenario_props 0) 0] initial_state), [])"
  using activate_rejected [of "fst (exec [Trigger (scenario_props 0) 0] initial_state)"
      "[Trigger (scenario_props 0) 0]" "scenario_props 0" 7]
  by (simp add: triggerTeamSpecial_def initial_state_def scenario_props_def scenario_targets_def)

subsection \<open>The elimination notification\<close>

lemma useFrame_snapshot:
  "holds_snapshot E s \<Longrightarrow> holds_snapshot E (fst (useFrame pr now delta rnd s))"
  by (auto simp add: holds_snapshot_def useFrame_def cooldown_tick_def approach_case_def
      attack_case_def escape_case_def Let_def split: phase.splits prod.splits if_splits)

lemma useFrame_destroyed:
  "holds_snapshot E s \<Longrightarrow> EnemiesDestroyed ids \<in> set (snd (useFrame pr now delta rnd s))
     \<Longrightarrow> ids = map target_id E"
  by (auto simp add: holds_snapshot_def useFrame_def cooldown_tick_def approach_case_def
      attack_case_def escape_case_def Let_def split: phase.splits prod.splits if_splits)

lemma step_snapshot:
  "holds_snapshot E s \<Longrightarrow> \<not> is_trigger a \<Longrightarrow> holds_snapshot E (fst (step a s))"
proof (cases a)
  case (Frame pr now delta rnd)
  assume "holds_snapshot E s"
  with Frame show ?thesis by (simp add: useFrame_snapshot)
next
  case (Trigger pr now)
  assume "\<not> is_trigger a"
  with Trigger show ?thesis by simp
next
  case (EffectComplete pr rendered eid now rtext)
  assume "holds_snapshot E s"
  with EffectComplete show ?thesis
    by (auto simp add: holds_snapshot_def handleEffectComplete_def Let_def split: option.splits)
next
  case LightningComplete
  assume "holds_snapshot E s"
  with LightningComplete show ?thesis by (simp add: holds_snapshot_def handleLightningComplete_def)
next
  case (LightningExplosion now i enemy)
  assume "holds_snapshot E s"
  with LightningExplosion show ?thesis by (simp add: holds_snapshot_def lightning_explosion_def)
next
  case (Cleanup now)
  assume "holds_snapshot E s"
  with Cleanup show ?thesis by (simp add: holds_snapshot_def cleanup_def)
qed

lemma step_destroyed:
  "holds_snapshot E s \<Longrightarrow> \<not> is_trigger a
     \<Longrightarrow> EnemiesDestroyed ids \<in> set (snd (step a s)) \<Longrightarrow> ids = map target_id E"
  by (cases a) (auto simp add: useFrame_destroyed)

lemma exec_snapshot:
  "holds_snapshot E s \<Longrightarrow> \<forall>a\<in>set ops. \<not> is_trigger a
     \<Longrightarrow> holds_snapshot E (fst (exec ops s))
         \<and> (\<forall>ids. EnemiesDestroyed ids \<in> set (snd (exec ops s)) \<longrightarrow> ids = map target_id E)"
proof (induction ops arbitrary: s)
  case Nil
  then show ?case by simp
next
  case (Cons a ops)
  from Cons.prems have na: "\<not> is_trigger a" and nops: "\<forall>a\<in>set ops. \<not> is_trigger a"
    by simp_all
  from Cons.prems(1) na have h1: "holds_snapshot E (fst (step a s))"
    by (rule step_snapshot)
  from Cons.IH [OF h1 nops]
  have ih: "holds_snapshot E (fst (exec ops (fst (step a s))))"
    "\<forall>ids. EnemiesDestroyed ids \<in> set (snd (exec ops (fst (step a s)))) \<longrightarrow> ids = map target_id E"
    by simp_all
  have d1: "\<forall>ids. EnemiesDestroyed ids \<in> set (snd (step a s)) \<longrightarrow> ids = map target_id E"
    using Cons.prems(1) na by (blast intro: step_destroyed)
  from ih d1 show ?case
    by (auto simp add: split_beta Let_def)
qed

lemma trigger_accepted:
  "triggerTeamSpecial pr now s = (True, s0, ns) \<Longrightarrow>
     targetEnemies s0 = enemies pr \<and> enemies pr \<noteq> [] \<and> isActive s0 \<and> phase s0 = approach
     \<and> attackPosition s0 = getAttackPosition pr \<and> wingmanPosition s0 = getSpawnPosition pr"
  by (auto simp add: triggerTeamSpecial_def split: if_splits)

lemma attack_exit:
  assumes "isActive s" "phase s = attack" "real_of_int (now - phaseStartTime s) > ATTACK_DURATION"
    "onEnemiesDestroyed pr" "cooldown s = 0"
  shows "snd (useFrame pr now delta rnd s) = [EnemiesDestroyed (map target_id (targetEnemies s))]
     \<and> phase (fst (useFrame pr now delta rnd s)) = escape"
  using assms by (simp add: useFrame_def cooldown_tick_def attack_case_def Let_def)

text \<open>
  Claim C1. After an accepted activation (whose snapshot is the non-empty list of
  targets passed in), whatever the variant selected on any frame and whatever callbacks
  run until the next activation request, every elimination notification carries exactly
  the ids of the snapshot, one per snapshot entry and in snapshot order; and the
  frame that leaves the attack phase does fire it.
\<close>

theorem elimination_notification:
  assumes acc: "triggerTeamSpecial pr now (fst (exec ops0 initial_state)) = (True, s0, ns)"
    and nt: "\<forall>a\<in>set ops. \<not> is_trigger a"
  shows "enemies pr \<noteq> []
     \<and> (\<forall>ids. EnemiesDestroyed ids \<in> set (snd (exec ops s0)) \<longrightarrow>
            ids = map target_id (enemies pr) \<and> length ids = length (enemies pr))
     \<and> (\<forall>pr' now' delta rnd.
            phase (fst (exec ops s0)) = attack
            \<and> real_of_int (now' - phaseStartTime (fst (exec ops s0))) > ATTACK_DURATION
            \<and> onEnemiesDestroyed pr' \<longrightarrow>
            snd (useFrame pr' now' delta rnd (fst (exec ops s0)))
              = [EnemiesDestroyed (map target_id (enemies pr))]
            \<and> phase (fst (useFrame pr' now' delta rnd (fst (exec ops s0)))) = escape)"
proof -
  from acc have t: "targetEnemies s0 = enemies pr" "enemies pr \<noteq> []"
    by (simp_all add: trigger_accepted)
  from t(1) have h0: "holds_snapshot (enemies pr) s0"
    by (simp add: holds_snapshot_def)
  from exec_snapshot [OF h0 nt]
  have h1: "holds_snapshot (enemies pr) (fst (exec ops s0))"
    and d: "\<forall>ids. EnemiesDestroyed ids \<in> set (snd (exec ops s0)) \<longrightarrow> ids = map target_id (enemies pr)"
    by simp_all
  have "wf_state (fst (exec ops0 initial_state))" by (rule reachable_wf)
  then have "wf_state (fst (snd (triggerTeamSpecial pr now (fst (exec ops0 initial_state)))))"
    by (rule trigger_wf)
  with acc have "wf_state s0" by simp
  then have w1: "wf_state (fst (exec ops s0))" by (rule exec_wf)
  have fire: "snd (useFrame pr' now' delta rnd (fst (exec ops s0)))
              = [EnemiesDestroyed (map target_id (enemies pr))]
            \<and> phase (fst (useFrame pr' now' delta rnd (fst (exec ops s0)))) = escape"
    if "phase (fst (exec ops s0)) = attack"
      "real_of_int (now' - phaseStartTime (fst (exec ops s0))) > ATTACK_DURATION"
      "onEnemiesDestroyed pr'" for pr' now' delta rnd
  proof -
    from w1 that(1) have a: "isActive (fst (exec ops s0))" "cooldown (fst (exec ops s0)) = 0"
      by (simp_all add: wf_state_def)
    with h1 have "targetEnemies (fst (exec ops s0)) = enemies pr"
      by (simp add: holds_snapshot_def)
    with attack_exit [OF a(1) that(1) that(2) that(3) a(2)] show ?thesis by simp
  qed
  from t(2) d fire show ?thesis by auto
qed

theorem elimination_notification_witness:
  "triggerTeamSpecial (scenario_props 0) 0 (fst (exec [] initial_state))
      = (True, scenario_active 0, [Activated 0 (Some ''FALCO'')])
   \<and> \<not> is_trigger (Frame (scenario_props 0) 1000 (1/10) (\<lambda>k. 1/2))
   \<and> phase (fst (exec [Frame (scenario_props 0) 1000 (1/10) (\<lambda>k. 1/2)] (scenario_active 0))) = attack
   \<and> snd (useFrame (scenario_props 0) 3001 (1/10) (\<lambda>k. 1/2)
        (fst (exec [Frame (scenario_props 0) 1000 (1/10) (\<lambda>k. 1/2)] (scenario_active 0))))
       = [EnemiesDestroyed [''a'', ''b'']]"
proof -
  have acc: "triggerTeamSpecial (scenario_props 0) 0 (fst (exec [] initial_state))
      = (True, scenario_active 0, [Activated 0 (Some ''FALCO'')])"
    by (simp add: scenario_trigger at_index_def WINGMAN_NAMES_def)
  have nt: "\<forall>a\<in>set [Frame (scenario_props 0) 1000 (1/10) (\<lambda>k. 1/2)]. \<not> is_trigger a"
    by simp
  have ph: "phase (fst (exec [Frame (scenario_props 0) 1000 (1/10) (\<lambda>k. 1/2)] (scenario_active 0))) = attack"
    and st: "phaseStartTime (fst (exec [Frame (scenario_props 0) 1000 (1/10) (\<lambda>k. 1/2)] (scenario_active 0))) = 1000"
    using scenario_attack_entry [of 0 "\<lambda>k. 1/2"] by (simp_all add: split_beta)
  have en: "onEnemiesDestroyed (scenario_props 0)" by (simp add: scenario_props_def)
  have ids: "map target_id (enemies (scenario_props 0)) = [''a'', ''b'']"
    by (simp add: scenario_props_def scenario_targets_def)
  from elimination_notification [OF acc nt] ph st en ids acc show ?thesis
    by (simp add: ATTACK_DURATION_def)
qed

subsection \<open>Cooldown\<close>

lemma scenario_escape_state:
  "phase (fst (exec (take 3 (scenario_cycle w)) initial_state)) = escape
   \<and> isActive (fst (exec (take 3 (scenario_cycle w)) initial_state))
   \<and> cooldown (fst (exec (take 3 (scenario_cycle w)) initial_state)) = 0
   \<and> phaseStartTime (fst (exec (take 3 (scenario_cycle w)) initial_state)) = 3001"
  by (simp add: scenario_cycle_def scenario_frame_def scenario_trigger scenario_active_eq
      useFrame_def cooldown_tick_def approach_case_def attack_case_def Let_def
      ATTACK_DURATION_def split_beta)

lemma scenario_cycle_state:
  "phase (fst (exec (scenario_cycle w) initial_state)) = idle
   \<and> \<not> isActive (fst (exec (scenario_cycle w) initial_state))
   \<and> cooldown (fst (exec (scenario_cycle w) initial_state)) = 45000
   \<and> attackEffects (fst (exec (scenario_cycle w) initial_state)) = []
   \<and> targetEnemies (fst (exec (scenario_cycle w) initial_state)) = []"
  by (simp add: scenario_cycle_def scenario_frame_def scenario_trigger scenario_active_eq
      useFrame_def cooldown_tick_def approach_case_def attack_case_def escape_case_def Let_def
      ATTACK_DURATION_def ESCAPE_DURATION_def TEAM_SPECIAL_COOLDOWN_def split_beta)

lemma useFrame_cooldown:
  "cooldown (fst (useFrame pr now delta rnd s)) =
     (if isActive s \<and> phase s = escape
         \<and> min (real_of_int (now - phaseStartTime s) / ESCAPE_DURATION) 1 \<ge> 1
      then TEAM_SPECIAL_COOLDOWN
      else if cooldown s > 0 then max 0 (cooldown s - delta * 1000) else cooldown s)"
  by (simp add: useFrame_def cooldown_tick_def approach_case_def attack_case_def
      escape_case_def Let_def split: phase.splits prod.splits)

lemma step_cooldown_other:
  "\<not> is_frame a \<Longrightarrow> cooldown (fst (step a s)) = cooldown s"
  by (cases a)
    (auto simp add: handleEffectComplete_def Let_def handleLightningComplete_def
      lightning_explosion_def cleanup_def triggerTeamSpecial_def split: option.splits)

text \<open>
  Claim C5. In every reachable state: a frame with positive delta while the cooldown is
  positive sets it to \<open>max 0 (cooldown - delta * 1000)\<close>, which is strictly smaller and
  not negative; a frame (with a delta that is not negative) raises the cooldown only when
  it leaves the escape phase, and then, as on every exit from the escape phase, the
  cooldown is the configured maximum; no callback other than the frame callback changes
  the cooldown.
\<close>

theorem cooldown_monotone:
  assumes "s = fst (exec ops initial_state)"
  shows "(0 < cooldown s \<and> 0 < delta \<longrightarrow>
            cooldown (fst (useFrame pr now delta rnd s)) = max 0 (cooldown s - delta * 1000)
            \<and> cooldown (fst (useFrame pr now delta rnd s)) < cooldown s
            \<and> 0 \<le> cooldown (fst (useFrame pr now delta rnd s)))
     \<and> (0 \<le> delta \<and> cooldown s < cooldown (fst (useFrame pr now delta rnd s)) \<longrightarrow>
            phase s = escape \<and> phase (fst (useFrame pr now delta rnd s)) = idle
            \<and> cooldown (fst (useFrame pr now delta rnd s)) = TEAM_SPECIAL_COOLDOWN)
     \<and> (phase s = escape \<and> phase (fst (useFrame pr now delta rnd s)) = idle \<longrightarrow>
            cooldown (fst (useFrame pr now delta rnd s)) = TEAM_SPECIAL_COOLDOWN)
     \<and> (\<forall>a. \<not> is_frame a \<longrightarrow> cooldown (fst (step a s)) = cooldown s)"
proof -
  from assms have w: "wf_state s" by (simp add: reachable_wf)
  have dec: "cooldown (fst (useFrame pr now delta rnd s)) = max 0 (cooldown s - delta * 1000)
      \<and> cooldown (fst (useFrame pr now delta rnd s)) < cooldown s
      \<and> 0 \<le> cooldown (fst (useFrame pr now delta rnd s))"
    if "0 < cooldown s" "0 < delta"
  proof -
    from w that(1) have "\<not> isActive s" by (auto simp add: wf_state_def)
    then have "cooldown (fst (useFrame pr now delta rnd s)) = max 0 (cooldown s - delta * 1000)"
      using that(1) by (simp add: useFrame_cooldown)
    with that show ?thesis by auto
  qed
  have inc: "phase s = escape \<and> phase (fst (useFrame pr now delta rnd s)) = idle
      \<and> cooldown (fst (useFrame pr now delta rnd s)) = TEAM_SPECIAL_COOLDOWN"
    if "0 \<le> delta" "cooldown s < cooldown (fst (useFrame pr now delta rnd s))"
  proof -
    have "0 \<le> delta * 1000" using that(1) by simp
    with that(2) have ex: "isActive s \<and> phase s = escape
         \<and> min (real_of_int (now - phaseStartTime s) / ESCAPE_DURATION) 1 \<ge> 1"
      by (auto simp add: useFrame_cooldown split: if_splits)
    then have "phase (fst (useFrame pr now delta rnd s)) = idle"
      by (simp add: useFrame_def cooldown_tick_def escape_case_def Let_def split: prod.splits)
    with ex show ?thesis by (simp add: useFrame_cooldown)
  qed
  have ex: "cooldown (fst (useFrame pr now delta rnd s)) = TEAM_SPECIAL_COOLDOWN"
    if "phase s = escape" "phase (fst (useFrame pr now delta rnd s)) = idle"
  proof -
    from w that(1) have "isActive s" by (simp add: wf_state_def)
    with that show ?thesis
      by (auto simp add: useFrame_def cooldown_tick_def escape_case_def Let_def
          split: prod.splits if_splits)
  qed
  from dec inc ex step_cooldown_other show ?thesis by blast
qed

theorem cooldown_monotone_witness:
  "0 < cooldown (fst (exec (scenario_cycle 0) initial_state))
   \<and> cooldown (fst (useFrame (scenario_props 0) 4601 (1/10) (\<lambda>k. 1/2)
         (fst (exec (scenario_cycle 0) initial_state)))) = 44900
   \<and> cooldown (fst (exec (take 3 (scenario_cycle 0)) initial_state))
        < cooldown (fst (useFrame (scenario_props 0) 4501 (1/10) (\<lambda>k. 1/2)
            (fst (exec (take 3 (scenario_cycle 0)) initial_state))))
   \<and> phase (fst (exec (take 3 (scenario_cycle 0)) initial_state)) = escape
   \<and> phase (fst (useFrame (scenario_props 0) 4501 (1/10) (\<lambda>k. 1/2)
            (fst (exec (take 3 (scenario_cycle 0)) initial_state)))) = idle
   \<and> cooldown (fst (useFrame (scenario_props 0) 4501 (1/10) (\<lambda>k. 1/2)
            (fst (exec (take 3 (scenario_cycle 0)) initial_state)))) = TEAM_SPECIAL_COOLDOWN
   \<and> \<not> is_frame (Cleanup 4700)
   \<and> cooldown (fst (step (Cleanup 4700) (fst (exec (scenario_cycle 0) initial_state)))) = 45000"
proof -
  let ?s = "fst (exec (scenario_cycle 0) initial_state)"
  let ?e = "fst (exec (take 3 (scenario_cycle 0)) initial_state)"
  have c: "cooldown ?s = 45000"
    by (simp add: scenario_cycle_state)
  have inc: "cooldown ?e < cooldown (fst (useFrame (scenario_props 0) 4501 (1/10) (\<lambda>k. 1/2) ?e))"
    by (simp add: useFrame_cooldown scenario_escape_state ESCAPE_DURATION_def
        TEAM_SPECIAL_COOLDOWN_def)
  note t1 = cooldown_monotone [of ?s "scenario_cycle 0" "1/10" "scenario_props 0" 4601 "\<lambda>k. 1/2"]
  note t2 = cooldown_monotone [of ?e "take 3 (scenario_cycle 0)" "1/10" "scenario_props 0" 4501
      "\<lambda>k. 1/2"]
  from t1 c have dec: "cooldown (fst (useFrame (scenario_props 0) 4601 (1/10) (\<lambda>k. 1/2) ?s)) = 44900"
    by simp
  from t1 have "\<not> is_frame (Cleanup 4700) \<longrightarrow> cooldown (fst (step (Cleanup 4700) ?s)) = cooldown ?s"
    by blast
  with c have oth: "cooldown (fst (step (Cleanup 4700) ?s)) = 45000"
    by (simp del: step.simps)
  from t2 inc have ex: "phase ?e = escape
      \<and> phase (fst (useFrame (scenario_props 0) 4501 (1/10) (\<lambda>k. 1/2) ?e)) = idle
      \<and> cooldown (fst (useFrame (scenario_props 0) 4501 (1/10) (\<lambda>k. 1/2) ?e)) = TEAM_SPECIAL_COOLDOWN"
    by simp
  from c dec inc ex oth show ?thesis
    by (simp del: step.simps)
qed

subsection \<open>Attack pose\<close>

text \<open>
  Claim C9. The attack pose is the reference position moved by +5 along x and +2 along
  y; it does not depend on the forward direction; and it is what an accepted activation
  stores.
\<close>

theorem attack_pose:
  "getAttackPosition pr =
      Vector3 (vx (playerPosition pr) + 5) (vy (playerPosition pr) + 2) (vz (playerPosition pr))
   \<and> getAttackPosition (pr\<lparr>playerForward := f\<rparr>) = getAttackPosition pr
   \<and> (triggerTeamSpecial pr now s = (True, s', ns) \<longrightarrow>
        attackPosition s' =
          Vector3 (vx (playerPosition pr) + 5) (vy (playerPosition pr) + 2) (vz (playerPosition pr)))"
  by (auto simp add: getAttackPosition_def Let_def triggerTeamSpecial_def split: if_splits)

theorem attack_pose_witness:
  "triggerTeamSpecial (scenario_props 0) 0 initial_state
      = (True, scenario_active 0, [Activated 0 (Some ''FALCO'')])
   \<and> attackPosition (scenario_active 0) = Vector3 5 2 0"
proof -
  have acc: "triggerTeamSpecial (scenario_props 0) 0 initial_state
      = (True, scenario_active 0, [Activated 0 (Some ''FALCO'')])"
    by (simp add: scenario_trigger at_index_def WINGMAN_NAMES_def)
  have p: "playerPosition (scenario_props 0) = Vector3 0 0 0"
    by (simp add: scenario_props_def)
  from attack_pose [of "scenario_props 0" "Vector3 0 0 (-1)" 0 initial_state "scenario_active 0"
      "[Activated 0 (Some ''FALCO'')]"] acc p
  show ?thesis by simp
qed

subsection \<open>Explosion ids and the cleanup sweeper\<close>

lemma digit_char_cases:
  "d < 10 \<Longrightarrow> d = 0 \<or> d = 1 \<or> d = 2 \<or> d = 3 \<or> d = 4 \<or> d = 5 \<or> d = 6 \<or> d = 7 \<or> d = 8 \<or> d = (9::nat)"
  by arith

lemma digit_value_digit_char: "d < 10 \<Longrightarrow> digit_value (digit_char d) = Some d"
  using digit_char_cases [of d]
  by (auto simp add: digit_value_def digit_table_def digit_char_def)

lemma digit_char_in: "d < 10 \<Longrightarrow> digit_char d \<in> set ''0123456789''"
  using digit_char_cases [of d] by (auto simp add: digit_char_def)

lemma decimal_digits: "set (decimal n) \<subseteq> set ''0123456789''"
proof (induction n rule: decimal.induct)
  case (1 n)
  show ?case
  proof (cases "n div 10 = 0")
    case True
    then have "n < 10" by simp
    then have "digit_char n \<in> set ''0123456789''" by (rule digit_char_in)
    with True show ?thesis by (subst decimal.simps) simp
  next
    case False
    have "digit_char (n mod 10) \<in> set ''0123456789''" by (rule digit_char_in) simp
    with False "1.IH" show ?thesis by (subst decimal.simps) simp
  qed
qed

lemma decimal_small: "n < 10 \<Longrightarrow> decimal n = [digit_char n]"
  by (subst decimal.simps) simp

lemma decimal_step: "10 \<le> n \<Longrightarrow> decimal n = decimal (n div 10) @ [digit_char (n mod 10)]"
proof -
  assume "10 \<le> n"
  then have "n div 10 \<noteq> 0" by simp
  then show ?thesis by (subst decimal.simps) simp
qed

lemma decimal_nonempty: "decimal n \<noteq> []"
  by (subst decimal.simps) simp

lemma parse_digits_decimal:
  "parse_digits 10 acc seen (decimal n @ rest)
     = parse_digits 10 (acc * 10 ^ length (decimal n) + n) True rest"
proof (induction n arbitrary: acc seen rest rule: decimal.induct)
  case (1 n)
  show ?case
  proof (cases "n div 10 = 0")
    case True
    then have lt: "n < 10" by simp
    from True have d: "decimal n = [digit_char n]" by (subst decimal.simps) simp
    from lt show ?thesis by (simp add: d digit_value_digit_char)
  next
    case False
    from False have d: "decimal n = decimal (n div 10) @ [digit_char (n mod 10)]"
      by (subst decimal.simps) simp
    have m: "n mod 10 < 10" by simp
    have "parse_digits 10 acc seen (decimal n @ rest)
        = parse_digits 10 acc seen (decimal (n div 10) @ (digit_char (n mod 10) # rest))"
      by (simp add: d)
    also have "\<dots> = parse_digits 10 (acc * 10 ^ length (decimal (n div 10)) + n div 10) True
                       (digit_char (n mod 10) # rest)"
      using False by (rule "1.IH")
    also have "\<dots> = parse_digits 10
          ((acc * 10 ^ length (decimal (n div 10)) + n div 10) * 10 + n mod 10) True rest"
      using m by (simp add: digit_value_digit_char)
    also have "(acc * 10 ^ length (decimal (n div 10)) + n div 10) * 10 + n mod 10
        = acc * 10 ^ length (decimal n) + n"
      by (simp add: d algebra_simps)
    finally show ?thesis .
  qed
qed

lemma parse_digits_token: "parse_digits 10 0 False (decimal n) = Some n"
  using parse_digits_decimal [of 0 False n "[]"] by simp

lemma parse_unsigned_decimal: "parse_unsigned (decimal n) = Some n"
proof (cases "decimal n")
  case Nil
  then show ?thesis by (simp add: decimal_nonempty)
next
  case (Cons a as)
  show ?thesis
  proof (cases as)
    case Nil
    with Cons parse_digits_token [of n] show ?thesis by (simp add: parse_unsigned_def)
  next
    case (Cons b rest)
    with \<open>decimal n = a # as\<close> decimal_digits [of n] have "b \<in> set ''0123456789''" by auto
    then have "b \<noteq> CHR ''x'' \<and> b \<noteq> CHR ''X''" by auto
    with Cons \<open>decimal n = a # as\<close> parse_digits_token [of n] show ?thesis
      by (simp add: parse_unsigned_def)
  qed
qed

lemma parseInt_decimal: "parseInt (Some (decimal n)) = Some (int n)"
proof (cases "decimal n")
  case Nil
  then show ?thesis by (simp add: decimal_nonempty)
next
  case (Cons a as)
  with decimal_digits [of n] have "a \<in> set ''0123456789''" by auto
  then have a: "\<not> is_whitespace a" "a \<noteq> CHR ''-''" "a \<noteq> CHR ''+''"
    by (auto simp add: is_whitespace_def)
  from parse_unsigned_decimal [of n] Cons have "parse_unsigned (a # as) = Some n" by simp
  with a Cons show ?thesis by (simp add: parseInt_def)
qed

lemma split_first: "c \<notin> set xs \<Longrightarrow> split c (xs @ c # ys) = xs # split c ys"
  by (induction xs) auto

lemma decimal_no_dash: "CHR ''-'' \<notin> set (decimal n)"
  using decimal_digits [of n] by auto

lemma split_decimal:
  "split CHR ''-'' (decimal n @ CHR ''-'' # rest) = decimal n # split CHR ''-'' rest"
  by (rule split_first) (rule decimal_no_dash)

lemma explosion_id_timestamp:
  assumes "0 \<le> created"
  shows "at_index (split CHR ''-'' (''explosion-'' @ number_to_string created @ ''-'' @ rest)) 1
           = Some (number_to_string created)
         \<and> parseInt (Some (number_to_string created)) = Some created"
  using assms
  by (simp add: number_to_string_def split_decimal at_index_def parseInt_decimal)

lemma explosion_retained_iff:
  assumes "0 \<le> created"
    and "explosion_id e = ''explosion-'' @ number_to_string created @ ''-'' @ rest"
  shows "explosion_retained now e \<longleftrightarrow> now - created < 600"
  using explosion_id_timestamp [OF assms(1), of rest] assms(2)
  by (simp add: explosion_retained_def)

lemma handleEffectComplete_new:
  assumes "e \<in> set (explosions (handleEffectComplete pr rendered effectId created rnd_text s))"
    and "e \<notin> set (explosions s)"
  shows "explosion_id e = ''explosion-'' @ number_to_string created @ ''-'' @ rnd_text"
  using assms
  by (auto simp add: handleEffectComplete_def Let_def split: option.splits)

lemma lightning_explosion_new:
  assumes "e \<in> set (explosions (lightning_explosion created i enemy s))"
    and "e \<notin> set (explosions s)"
  shows "explosion_id e = ''explosion-'' @ number_to_string created @ ''-'' @ decimal i"
  using assms
  by (auto simp add: lightning_explosion_def)

text \<open>
  Claim C10. An explosion created at clock reading \<open>created\<close> (not negative, and below
  \<open>10^21\<close>, where a number prints in plain decimal), by \<open>handleEffectComplete\<close> or by a
  timer of \<open>handleLightningComplete\<close>, has that reading as the second dash-separated token
  of its id, \<open>parseInt\<close> reads it back, and the sweeper (period 100 ms) keeps the
  explosion if and only if \<open>now - created < 600\<close>.
\<close>

theorem explosion_cleanup:
  assumes "0 \<le> created" and "created < 10 ^ 21"
  shows "(\<forall>e. e \<in> set (explosions (handleEffectComplete pr rendered effectId created rnd_text s))
             \<and> e \<notin> set (explosions s) \<longrightarrow> embeds_timestamp created now e)
     \<and> (\<forall>e. e \<in> set (explosions (lightning_explosion created i enemy s))
             \<and> e \<notin> set (explosions s) \<longrightarrow> embeds_timestamp created now e)
     \<and> explosions (cleanup now s) = filter (explosion_retained now) (explosions s)
     \<and> CLEANUP_INTERVAL = 100"
proof -
  have a: "embeds_timestamp created now e"
    if "explosion_id e = ''explosion-'' @ number_to_string created @ ''-'' @ rest" for e rest
    using explosion_id_timestamp [OF assms(1), of rest] explosion_retained_iff [OF assms(1) that, of now] that
    by (simp add: embeds_timestamp_def)
  show ?thesis
    by (auto simp add: cleanup_def CLEANUP_INTERVAL_def
        intro: a handleEffectComplete_new lightning_explosion_new)
qed

theorem explosion_cleanup_witness:
  "(0::int) \<le> 1000 \<and> (1000::int) < 10 ^ 21
   \<and> explosions (lightning_explosion 1000 0 (hd scenario_targets) initial_state)
       = [\<lparr>explosion_id = ''explosion-1000-0'', explosion_position = Vector3 0 0 (-30),
            explosion_color = Some ''#ffff00''\<rparr>]
   \<and> embeds_timestamp 1000 1599
        \<lparr>explosion_id = ''explosion-1000-0'', explosion_position = Vector3 0 0 (-30),
            explosion_color = Some ''#ffff00''\<rparr>
   \<and> explosion_retained 1599
        \<lparr>explosion_id = ''explosion-1000-0'', explosion_position = Vector3 0 0 (-30),
            explosion_color = Some ''#ffff00''\<rparr>
   \<and> \<not> explosion_retained 1600
        \<lparr>explosion_id = ''explosion-1000-0'', explosion_position = Vector3 0 0 (-30),
            explosion_color = Some ''#ffff00''\<rparr>"
proof -
  let ?e = "\<lparr>explosion_id = ''explosion-1000-0'', explosion_position = Vector3 0 0 (-30),
            explosion_color = Some ''#ffff00''\<rparr>"
  have d0: "decimal 0 = ''0''" and d1000: "decimal 1000 = ''1000''"
    by (simp_all add: decimal_small decimal_step digit_char_def)
  have ex: "explosions (lightning_explosion 1000 0 (hd scenario_targets) initial_state) = [?e]"
    by (simp add: lightning_explosion_def initial_state_def scenario_targets_def
        number_to_string_def d0 d1000)
  have new: "?e \<in> set (explosions (lightning_explosion 1000 0 (hd scenario_targets) initial_state))
      \<and> ?e \<notin> set (explosions initial_state)"
    by (simp add: ex) (simp add: initial_state_def)
  have z: "(0::int) \<le> 1000" and z2: "(1000::int) < 10 ^ 21" by simp_all
  note t1 = explosion_cleanup [OF z z2, of "scenario_props 0" "[]" "''x''" "''0.5''" initial_state 1599 0
      "hd scenario_targets"]
  note t2 = explosion_cleanup [OF z z2, of "scenario_props 0" "[]" "''x''" "''0.5''" initial_state 1600 0
      "hd scenario_targets"]
  from t1 new have e1: "embeds_timestamp 1000 1599 ?e" by blast
  from t2 new have e2: "embeds_timestamp 1000 1600 ?e" by blast
  from e1 have "explosion_retained 1599 ?e \<longleftrightarrow> (1599::int) - 1000 < 600"
    unfolding embeds_timestamp_def by blast
  then have r1: "explosion_retained 1599 ?e" by simp
  from e2 have "explosion_retained 1600 ?e \<longleftrightarrow> (1600::int) - 1000 < 600"
    unfolding embeds_timestamp_def by blast
  then have r2: "\<not> explosion_retained 1600 ?e" by simp
  from ex e1 r1 r2 show ?thesis by simp
qed

subsection \<open>Approach motion\<close>

lemma smoothstep_unit: "0 \<le> t \<Longrightarrow> t \<le> 1 \<Longrightarrow> smoothstep t 0 1 = t * t * (3 - 2 * t)"
  by (auto simp add: smoothstep_def Let_def)

lemma smoothstep_deriv_0: "((\<lambda>t. smoothstep t 0 1) has_real_derivative 0) (at 0)"
proof -
  have bound: "\<bar>smoothstep y 0 1\<bar> / \<bar>y\<bar> \<le> \<bar>y\<bar> * 3" if "y \<noteq> 0" "\<bar>y\<bar> < 1" for y :: real
  proof (cases "y \<le> 0")
    case True
    then show ?thesis by (simp add: smoothstep_def)
  next
    case False
    with that have y: "0 < y" "y < 1" by simp_all
    then have "smoothstep y 0 1 = y * (y * (3 - 2 * y))"
      by (simp add: smoothstep_def Let_def)
    moreover from y have "0 \<le> y * (3 - 2 * y)" "y * (3 - 2 * y) \<le> y * 3"
      by (simp_all add: mult_left_mono)
    ultimately show ?thesis using y by (simp add: abs_mult)
  qed
  have ev: "eventually (\<lambda>y. norm (smoothstep y 0 1 / y) \<le> norm y * 3) (at (0::real))"
    unfolding eventually_at
  proof (intro exI [of _ 1] conjI ballI impI)
    show "(0::real) < 1" by simp
  next
    fix y :: real
    assume "y \<in> UNIV" and "y \<noteq> 0 \<and> dist y 0 < 1"
    then show "norm (smoothstep y 0 1 / y) \<le> norm y * 3"
      using bound [of y] by simp
  qed
  have "((\<lambda>y::real. y) \<longlongrightarrow> 0) (at 0)" by (rule tendsto_ident_at)
  then have "((\<lambda>y. smoothstep y 0 1 / y) \<longlongrightarrow> 0) (at 0)"
    using ev by (rule tendsto_0_le)
  then show ?thesis
    by (simp add: has_field_derivative_iff smoothstep_def)
qed

lemma smoothstep_deriv_1: "((\<lambda>t. smoothstep t 0 1) has_real_derivative 0) (at 1)"
proof -
  have bound: "\<bar>smoothstep y 0 1 - 1\<bar> / \<bar>y - 1\<bar> \<le> \<bar>y - 1\<bar> * 3"
    if "y \<noteq> 1" "\<bar>y - 1\<bar> < 1" for y :: real
  proof (cases "y \<ge> 1")
    case True
    then show ?thesis by (simp add: smoothstep_def)
  next
    case False
    with that have y: "0 < y" "y < 1" by simp_all
    then have "smoothstep y 0 1 - 1 = - ((2 * y + 1) * ((1 - y) * (1 - y)))"
      by (simp add: smoothstep_def Let_def algebra_simps)
    moreover from y have "0 \<le> (2 * y + 1) * ((1 - y) * (1 - y))" by simp
    ultimately have "\<bar>smoothstep y 0 1 - 1\<bar> = (2 * y + 1) * ((1 - y) * (1 - y))"
      by simp
    moreover from y have "\<bar>y - 1\<bar> = 1 - y" by simp
    ultimately have "\<bar>smoothstep y 0 1 - 1\<bar> / \<bar>y - 1\<bar> = (2 * y + 1) * (1 - y)"
      using y by simp
    moreover from y have "(2 * y + 1) * (1 - y) \<le> 3 * (1 - y)"
      by (intro mult_right_mono) simp_all
    ultimately show ?thesis using y by simp
  qed
  have ev: "eventually (\<lambda>y. norm ((smoothstep y 0 1 - 1) / (y - 1)) \<le> norm (y - 1) * 3) (at (1::real))"
    unfolding eventually_at
  proof (intro exI [of _ 1] conjI ballI impI)
    show "(0::real) < 1" by simp
  next
    fix y :: real
    assume "y \<in> UNIV" and "y \<noteq> 1 \<and> dist y 1 < 1"
    then show "norm ((smoothstep y 0 1 - 1) / (y - 1)) \<le> norm (y - 1) * 3"
      using bound [of y] by (simp add: dist_real_def)
  qed
  have "((\<lambda>y::real. y - 1) \<longlongrightarrow> 1 - 1) (at 1)"
    by (intro tendsto_intros)
  then have "((\<lambda>y::real. y - 1) \<longlongrightarrow> 0) (at 1)" by simp
  then have "((\<lambda>y. (smoothstep y 0 1 - 1) / (y - 1)) \<longlongrightarrow> 0) (at 1)"
    using ev by (rule tendsto_0_le)
  then show ?thesis
    by (simp add: has_field_derivative_iff smoothstep_def)
qed

lemma approach_position:
  assumes "isActive s" "phase s = approach"
  shows "wingmanPosition (fst (useFrame pr now delta rnd s)) =
     lerpVectors (getSpawnPosition pr) (attackPosition s)
       (smoothstep (min (real_of_int (now - phaseStartTime s) / 1000) 1) 0 1)"
  using assms
  by (simp add: useFrame_def cooldown_tick_def approach_case_def Let_def split: prod.splits)

text \<open>
  Claim C7, as the code has it. An accepted activation places the unit at the spawn pose
  computed from the reference pose of that moment (15 above the reference position when
  the forward direction is level) and fixes the attack pose. On every frame of the
  approach phase the unit position is the blend towards that fixed attack pose from the
  spawn pose computed anew from the reference pose of that frame (the activation-time
  spawn pose when the reference pose has not changed), at progress
  \<open>smoothstep (min (elapsed / 1000) 1)\<close>; \<open>smoothstep\<close> is \<open>t * t * (3 - 2 * t)\<close> on the unit
  interval and has derivative zero at 0 and at 1.
\<close>

theorem approach_blend:
  "(triggerTeamSpecial pr now s = (True, s0, ns) \<longrightarrow>
       wingmanPosition s0 = getSpawnPosition pr \<and> attackPosition s0 = getAttackPosition pr)
   \<and> (vy (playerForward pr) = 0 \<longrightarrow>
         vy (getSpawnPosition pr) = vy (playerPosition pr) + SPAWN_OFFSET_ABOVE)
   \<and> (isActive s1 \<and> phase s1 = approach \<longrightarrow>
         wingmanPosition (fst (useFrame pr' now' delta rnd s1)) =
           lerpVectors (getSpawnPosition pr') (attackPosition s1)
             (smoothstep (min (real_of_int (now' - phaseStartTime s1) / 1000) 1) 0 1))
   \<and> (playerPosition pr' = playerPosition pr \<and> playerForward pr' = playerForward pr \<longrightarrow>
         getSpawnPosition pr' = getSpawnPosition pr)
   \<and> (\<forall>t. 0 \<le> t \<and> t \<le> 1 \<longrightarrow> smoothstep t 0 1 = t * t * (3 - 2 * t))
   \<and> ((\<lambda>t. smoothstep t 0 1) has_real_derivative 0) (at 0)
   \<and> ((\<lambda>t. smoothstep t 0 1) has_real_derivative 0) (at 1)"
proof -
  have a: "wingmanPosition s0 = getSpawnPosition pr \<and> attackPosition s0 = getAttackPosition pr"
    if "triggerTeamSpecial pr now s = (True, s0, ns)"
    using that by (simp add: trigger_accepted)
  have b: "vy (getSpawnPosition pr) = vy (playerPosition pr) + SPAWN_OFFSET_ABOVE"
    if "vy (playerForward pr) = 0"
    using that by (simp add: getSpawnPosition_def Let_def add_v_def multiplyScalar_def)
  have c: "getSpawnPosition pr' = getSpawnPosition pr"
    if "playerPosition pr' = playerPosition pr \<and> playerForward pr' = playerForward pr"
    using that by (simp add: getSpawnPosition_def)
  from a b c approach_position [of s1 pr' now' delta rnd] smoothstep_unit
    smoothstep_deriv_0 smoothstep_deriv_1
  show ?thesis by blast
qed

theorem approach_blend_witness:
  "triggerTeamSpecial (scenario_props 0) 0 initial_state
      = (True, scenario_active 0, [Activated 0 (Some ''FALCO'')])
   \<and> vy (playerForward (scenario_props 0)) = 0
   \<and> isActive (scenario_active 0) \<and> phase (scenario_active 0) = approach
   \<and> wingmanPosition (scenario_active 0) = Vector3 0 15 (-40)
   \<and> wingmanPosition (fst (useFrame (scenario_props 0) 500 (1/10) (\<lambda>k. 1/2) (scenario_active 0)))
       = Vector3 (5/2) (17/2) (-20)
   \<and> (0::real) \<le> 1/2 \<and> (1/2::real) \<le> 1 \<and> smoothstep (1/2) 0 1 = 1/2"
proof -
  have acc: "triggerTeamSpecial (scenario_props 0) 0 initial_state
      = (True, scenario_active 0, [Activated 0 (Some ''FALCO'')])"
    by (simp add: scenario_trigger at_index_def WINGMAN_NAMES_def)
  have fw: "vy (playerForward (scenario_props 0)) = 0"
    and pp: "playerPosition (scenario_props 0) = Vector3 0 0 0"
    by (simp_all add: scenario_props_def)
  have act: "isActive (scenario_active 0)" "phase (scenario_active 0) = approach"
    "phaseStartTime (scenario_active 0) = 0" "attackPosition (scenario_active 0) = Vector3 5 2 0"
    "wingmanPosition (scenario_active 0) = Vector3 0 15 (-40)"
    by (simp_all add: scenario_active_eq)
  note t = approach_blend [of "scenario_props 0" 0 initial_state "scenario_active 0"
      "[Activated 0 (Some ''FALCO'')]" "scenario_active 0" "scenario_props 0" 500 "1/10"
      "\<lambda>k. 1/2"]
  from t acc act have sp: "getSpawnPosition (scenario_props 0) = Vector3 0 15 (-40)"
    by simp
  from t have "smoothstep (1/2) 0 1 = (1/2) * (1/2) * (3 - 2 * (1/2))"
    by (auto simp del: mult_eq_0_iff)
  then have ss: "smoothstep (1/2) 0 1 = 1/2" by simp
  from t act have "wingmanPosition (fst (useFrame (scenario_props 0) 500 (1/10) (\<lambda>k. 1/2) (scenario_active 0)))
      = lerpVectors (getSpawnPosition (scenario_props 0)) (Vector3 5 2 0)
          (smoothstep (min (real_of_int (500 - 0) / 1000) 1) 0 1)"
    by simp
  then have pos: "wingmanPosition (fst (useFrame (scenario_props 0) 500 (1/10) (\<lambda>k. 1/2) (scenario_active 0)))
       = Vector3 (5/2) (17/2) (-20)"
    by (simp add: sp ss lerpVectors_def)
  from acc fw act pos ss show ?thesis by simp
qed

text \<open>
  The claim as stated (the blend starts from the spawn pose computed once at acceptance)
  fails when the reference pose moves during the approach: accepted with the player at
  the origin, then a frame at 500 ms with the player at \<open>(10, 0, 0)\<close>.
\<close>

theorem approach_blend_counterexample:
  "wingmanPosition
     (fst (useFrame ((scenario_props 0)\<lparr>playerPosition := Vector3 10 0 0\<rparr>) 500 (1/10) (\<lambda>k. 1/2)
        (scenario_active 0)))
   \<noteq> lerpVectors (wingmanPosition (scenario_active 0)) (attackPosition (scenario_active 0))
       (smoothstep (min (real_of_int (500 - phaseStartTime (scenario_active 0)) / 1000) 1) 0 1)"
proof -
  have ss: "smoothstep (1/2) 0 1 = 1/2" by (simp add: smoothstep_def Let_def)
  have l: "wingmanPosition
     (fst (useFrame ((scenario_props 0)\<lparr>playerPosition := Vector3 10 0 0\<rparr>) 500 (1/10) (\<lambda>k. 1/2)
        (scenario_active 0))) = Vector3 (15/2) (17/2) (-20)"
    by (simp add: approach_position scenario_active_eq ss lerpVectors_def getSpawnPosition_def
        scenario_props_def add_v_def multiplyScalar_def Let_def SPAWN_OFFSET_BEHIND_def
        SPAWN_OFFSET_ABOVE_def)
  have r: "lerpVectors (wingmanPosition (scenario_active 0)) (attackPosition (scenario_active 0))
       (smoothstep (min (real_of_int (500 - phaseStartTime (scenario_active 0)) / 1000) 1) 0 1)
     = Vector3 (5/2) (17/2) (-20)"
    by (simp add: scenario_active_eq ss lerpVectors_def)
  show ?thesis unfolding l r by simp
qed

subsection \<open>The attack and escape phases of a run\<close>

lemma arena_entry_state:
  assumes "ts \<noteq> []"
  shows "fst (exec (arena_entry ts w) initial_state) =
     \<lparr>cooldown = 0, isActive = True, phase = attack,
      wingmanPosition = Vector3 5 2 0, wingmanRotation = (0, pi, 0),
      attackEffects = executeAttack w ts (Vector3 5 2 0) (\<lambda>k. 1/2),
      explosions = [], targetEnemies = ts,
      phaseStartTime = 1000, attackPosition = Vector3 5 2 0\<rparr>"
  using assms
  by (simp add: arena_entry_def arena_frame_def arena_props_def triggerTeamSpecial_def
      initial_state_def useFrame_def cooldown_tick_def approach_case_def Let_def
      getSpawnPosition_def getAttackPosition_def add_v_def multiplyScalar_def subVectors_def
      lerpVectors_def smoothstep_def normalize_v_def length_v_def
      SPAWN_OFFSET_BEHIND_def SPAWN_OFFSET_ABOVE_def split_beta)

lemma exec_append_state: "fst (exec (xs @ ys) s) = fst (exec ys (fst (exec xs s)))"
  by (induction xs arbitrary: s) (simp_all add: split_beta)

lemma useFrame_attack_hold:
  assumes "isActive s" "phase s = attack" "cooldown s = 0"
    and "real_of_int (now - phaseStartTime s) \<le> ATTACK_DURATION"
  shows "useFrame pr now delta rnd s = (s, [])"
  using assms by (simp add: useFrame_def cooldown_tick_def attack_case_def Let_def)

lemma exec_attack_hold:
  assumes "isActive s" "phase s = attack" "cooldown s = 0"
    and "\<forall>t\<in>set ts. real_of_int (t - phaseStartTime s) \<le> ATTACK_DURATION"
  shows "fst (exec (map (\<lambda>t. Frame pr t d rnd) ts) s) = s"
  using assms by (induction ts) (simp_all add: useFrame_attack_hold)

lemma useFrame_attack_leave:
  assumes "isActive s" "phase s = attack" "cooldown s = 0"
    and "real_of_int (now - phaseStartTime s) > ATTACK_DURATION"
  shows "fst (useFrame pr now delta rnd s) = s\<lparr>phase := escape, phaseStartTime := now\<rparr>"
  using assms by (simp add: useFrame_def cooldown_tick_def attack_case_def Let_def)

lemma useFrame_escape_hold:
  assumes "escaping t0 effs s" and "real_of_int (now - t0) < ESCAPE_DURATION"
  shows "escaping t0 effs (fst (useFrame pr now delta rnd s))"
  using assms
  by (simp add: escaping_def useFrame_def cooldown_tick_def escape_case_def Let_def
      ESCAPE_DURATION_def)

lemma exec_escape_hold:
  assumes "escaping t0 effs s"
    and "\<forall>t\<in>set ts. real_of_int (t - t0) < ESCAPE_DURATION"
  shows "escaping t0 effs (fst (exec (map (\<lambda>t. Frame pr t d rnd) ts) s))"
  using assms
proof (induction ts arbitrary: s)
  case Nil
  then show ?case by simp
next
  case (Cons t ts)
  from Cons.prems have "escaping t0 effs (fst (useFrame pr t d rnd s))"
    by (simp add: useFrame_escape_hold)
  with Cons.IH [of "fst (useFrame pr t d rnd s)"] Cons.prems(2) show ?case
    by (simp add: split_beta)
qed

lemma useFrame_escape_leave:
  assumes "escaping t0 effs s" and "real_of_int (now - t0) \<ge> ESCAPE_DURATION"
  shows "attackEffects (fst (useFrame pr now delta rnd s)) = []
     \<and> phase (fst (useFrame pr now delta rnd s)) = idle"
  using assms
  by (simp add: escaping_def useFrame_def cooldown_tick_def escape_case_def Let_def
      ESCAPE_DURATION_def)

lemma dwell_times_split:
  "dwell_times =
     [1100, 1200, 1300, 1400, 1500, 1600, 1700, 1800, 1900, 2000, 2100, 2200, 2300, 2400,
      2500, 2600, 2700, 2800, 2900, 3000] @ [3100]"
  by (simp add: dwell_times_def upt_rec)

lemma escape_times_split:
  "escape_times =
     [3200, 3300, 3400, 3500, 3600, 3700, 3800, 3900, 4000, 4100, 4200, 4300, 4400, 4500]
     @ [4600]"
  by (simp add: escape_times_def upt_rec)

lemma arena_dwell_state:
  assumes "ts \<noteq> []"
  shows "fst (exec (arena_dwell ts w) initial_state)
     = (fst (exec (arena_entry ts w) initial_state))\<lparr>phase := escape, phaseStartTime := 3100\<rparr>"
proof -
  let ?s1 = "fst (exec (arena_entry ts w) initial_state)"
  let ?hold = "[1100, 1200, 1300, 1400, 1500, 1600, 1700, 1800, 1900, 2000, 2100, 2200, 2300,
      2400, 2500, 2600, 2700, 2800, 2900, 3000 :: int]"
  let ?f = "\<lambda>t. Frame (arena_props ts w) t (1/10) (\<lambda>k. 1/2)"
  have s1: "isActive ?s1" "phase ?s1 = attack" "cooldown ?s1 = 0" "phaseStartTime ?s1 = 1000"
    by (simp_all add: arena_entry_state [OF assms])
  have h: "fst (exec (map ?f ?hold) ?s1) = ?s1"
    by (rule exec_attack_hold) (simp_all add: s1 ATTACK_DURATION_def)
  have l: "fst (useFrame (arena_props ts w) 3100 (1/10) (\<lambda>k. 1/2) ?s1)
      = ?s1\<lparr>phase := escape, phaseStartTime := 3100\<rparr>"
    by (rule useFrame_attack_leave) (simp_all add: s1 ATTACK_DURATION_def)
  have l1: "fst (exec (map ?f [3100]) ?s1) = ?s1\<lparr>phase := escape, phaseStartTime := 3100\<rparr>"
    by (simp add: l)
  have f: "arena_frame ts w = ?f"
    by (rule ext) (simp add: arena_frame_def)
  show ?thesis
    unfolding arena_dwell_def dwell_times_split f map_append exec_append_state
    by (simp only: h l1)
qed

lemma arena_run_state:
  assumes "ts \<noteq> []"
  shows "attackEffects (fst (exec (arena_run ts w) initial_state)) = []
     \<and> phase (fst (exec (arena_run ts w) initial_state)) = idle"
proof -
  let ?s1 = "fst (exec (arena_entry ts w) initial_state)"
  let ?s2 = "?s1\<lparr>phase := escape, phaseStartTime := 3100\<rparr>"
  let ?esc = "[3200, 3300, 3400, 3500, 3600, 3700, 3800, 3900, 4000, 4100, 4200, 4300, 4400,
      4500 :: int]"
  let ?f = "\<lambda>t. Frame (arena_props ts w) t (1/10) (\<lambda>k. 1/2)"
  have s1: "isActive ?s1" "phase ?s1 = attack" "cooldown ?s1 = 0" "phaseStartTime ?s1 = 1000"
    by (simp_all add: arena_entry_state [OF assms])
  have e2: "escaping 3100 (attackEffects ?s1) ?s2"
    by (simp add: escaping_def s1)
  have e3: "escaping 3100 (attackEffects ?s1) (fst (exec (map ?f ?esc) ?s2))"
    by (rule exec_escape_hold [OF e2]) (simp add: ESCAPE_DURATION_def)
  have fin: "attackEffects (fst (useFrame (arena_props ts w) 4600 (1/10) (\<lambda>k. 1/2)
                 (fst (exec (map ?f ?esc) ?s2)))) = []
     \<and> phase (fst (useFrame (arena_props ts w) 4600 (1/10) (\<lambda>k. 1/2)
                 (fst (exec (map ?f ?esc) ?s2)))) = idle"
    using useFrame_escape_leave [OF e3, of 4600 "arena_props ts w" "1/10" "\<lambda>k. 1/2"]
    by (simp add: ESCAPE_DURATION_def)
  have l2: "fst (exec (map ?f [4600]) s) = fst (useFrame (arena_props ts w) 4600 (1/10) (\<lambda>k. 1/2) s)"
    for s by (simp add: split_beta)
  have f: "arena_frame ts w = ?f"
    by (rule ext) (simp add: arena_frame_def)
  have run: "fst (exec (arena_run ts w) initial_state)
      = fst (useFrame (arena_props ts w) 4600 (1/10) (\<lambda>k. 1/2) (fst (exec (map ?f ?esc) ?s2)))"
    unfolding arena_run_def exec_append_state arena_dwell_state [OF assms]
    unfolding escape_times_split f map_append exec_append_state
    by (simp only: l2)
  from fin show ?thesis unfolding run .
qed

subsection \<open>Timers of beam and chain instances\<close>

lemma beam_step_not_before:
  assumes "t0 \<le> t" "beam_not_before t0 e b" "beam_step e t ev b = Some (b1, called)"
  shows "beam_not_before t0 e b1 \<and> (called \<longrightarrow> t0 + delay e + timeout_of (duration e) \<le> t)"
  using assms
  by (cases ev)
    (auto simp add: beam_not_before_def split: if_splits option.splits list.splits)

lemma beam_run_not_before:
  assumes "t0 \<le> clock" "beam_not_before t0 e b" "beam_run e clock evs b = Some calls"
  shows "\<forall>c\<in>set calls. t0 + delay e + timeout_of (duration e) \<le> c"
  using assms
proof (induction evs arbitrary: clock b calls)
  case Nil
  then show ?case by simp
next
  case (Cons x evs)
  obtain t ev where x: "x = (t, ev)" by (cases x)
  from Cons.prems(3) x have tc: "clock \<le> t"
    by (auto split: if_splits)
  with Cons.prems(3) x obtain b1 called rest where
    st: "beam_step e t ev b = Some (b1, called)"
    and re: "beam_run e t evs b1 = Some rest"
    and ca: "calls = (if called then t # rest else rest)"
    by (auto split: if_splits option.splits)
  from tc Cons.prems(1) have t0t: "t0 \<le> t" by simp
  from beam_step_not_before [OF t0t Cons.prems(2) st]
  have nb: "beam_not_before t0 e b1"
    and late: "called \<longrightarrow> t0 + delay e + timeout_of (duration e) \<le> t"
    by simp_all
  from Cons.IH [OF t0t nb re] late ca show ?case by auto
qed

lemma beam_mount_not_before: "beam_not_before t0 e (beam_mount t0 e)"
  by (simp add: beam_not_before_def beam_mount_def)

lemma beam_step_pending:
  assumes "ev \<noteq> BeamDepsChange" "beam_step e t ev b = Some (b1, called)"
  shows "beam_pending b1 + (if called then 1 else 0) \<le> beam_pending b"
  using assms
  by (cases ev)
    (auto simp add: beam_pending_def split: if_splits option.splits list.splits)

lemma beam_run_pending:
  assumes "\<forall>x\<in>set evs. snd x \<noteq> BeamDepsChange" "beam_run e clock evs b = Some calls"
  shows "length calls \<le> beam_pending b"
  using assms
proof (induction evs arbitrary: clock b calls)
  case Nil
  then show ?case by simp
next
  case (Cons x evs)
  obtain t ev where x: "x = (t, ev)" by (cases x)
  from Cons.prems(2) x obtain b1 called rest where
    st: "beam_step e t ev b = Some (b1, called)"
    and re: "beam_run e t evs b1 = Some rest"
    and ca: "calls = (if called then t # rest else rest)"
    by (auto split: if_splits option.splits)
  from Cons.prems(1) x have nd: "ev \<noteq> BeamDepsChange" and nds: "\<forall>x\<in>set evs. snd x \<noteq> BeamDepsChange"
    by simp_all
  from Cons.IH [OF nds re] have "length rest \<le> beam_pending b1" .
  with beam_step_pending [OF nd st] ca show ?case by (auto split: if_splits)
qed

lemma beam_on_time:
  assumes "0 \<le> delay e" "0 \<le> timeout_of (duration e)"
  shows "beam_run e t0
           [(t0 + delay e, BeamStartTimer),
            (t0 + delay e + timeout_of (duration e), BeamEndTimer)] (beam_mount t0 e)
         = Some [t0 + delay e + timeout_of (duration e)]"
  using assms by (simp add: beam_mount_def)

lemma beam_unmounted_silent:
  assumes "\<not> b_mounted b" "beam_pending b = 0" "beam_run e clock evs b = Some calls"
  shows "calls = []"
proof (cases evs)
  case Nil
  with assms(3) show ?thesis by simp
next
  case (Cons x rest)
  obtain t ev where x: "x = (t, ev)" by (cases x)
  from assms(1,2) have "beam_step e t ev b = None"
    by (cases ev) (auto simp add: beam_pending_def split: option.splits list.splits)
  with assms(3) Cons x show ?thesis by (simp split: if_splits)
qed

lemma chain_step_not_before:
  assumes "t0 \<le> t" "chain_not_before t0 e c" "chain_step e t ev c = Some (c1, called)"
  shows "chain_not_before t0 e c1
     \<and> (called \<longrightarrow> t0 + delay e + timeout_of (duration e) + 500 \<le> t)"
  using assms
  by (cases ev)
    (auto simp add: chain_not_before_def split: if_splits option.splits list.splits)

lemma chain_run_not_before:
  assumes "t0 \<le> clock" "chain_not_before t0 e c" "chain_run e clock evs c = Some calls"
  shows "\<forall>x\<in>set calls. t0 + delay e + timeout_of (duration e) + 500 \<le> x"
  using assms
proof (induction evs arbitrary: clock c calls)
  case Nil
  then show ?case by simp
next
  case (Cons x evs)
  obtain t ev where x: "x = (t, ev)" by (cases x)
  from Cons.prems(3) x have tc: "clock \<le> t"
    by (auto split: if_splits)
  with Cons.prems(3) x obtain c1 called rest where
    st: "chain_step e t ev c = Some (c1, called)"
    and re: "chain_run e t evs c1 = Some rest"
    and ca: "calls = (if called then t # rest else rest)"
    by (auto split: if_splits option.splits)
  from tc Cons.prems(1) have t0t: "t0 \<le> t" by simp
  from chain_step_not_before [OF t0t Cons.prems(2) st]
  have nb: "chain_not_before t0 e c1"
    and late: "called \<longrightarrow> t0 + delay e + timeout_of (duration e) + 500 \<le> t"
    by simp_all
  from Cons.IH [OF t0t nb re] late ca show ?case by auto
qed

lemma chain_mount_not_before: "chain_not_before t0 e (chain_mount t0 e)"
  by (simp add: chain_not_before_def chain_mount_def)

lemma chain_step_pending:
  assumes "ev \<noteq> ChainDepsChange" "chain_step e t ev c = Some (c1, called)"
  shows "chain_pending c1 + (if called then 1 else 0) \<le> chain_pending c"
  using assms
  by (cases ev)
    (auto simp add: chain_pending_def split: if_splits option.splits list.splits)

lemma chain_run_pending:
  assumes "\<forall>x\<in>set evs. snd x \<noteq> ChainDepsChange" "chain_run e clock evs c = Some calls"
  shows "length calls \<le> chain_pending c"
  using assms
proof (induction evs arbitrary: clock c calls)
  case Nil
  then show ?case by simp
next
  case (Cons x evs)
  obtain t ev where x: "x = (t, ev)" by (cases x)
  from Cons.prems(2) x obtain c1 called rest where
    st: "chain_step e t ev c = Some (c1, called)"
    and re: "chain_run e t evs c1 = Some rest"
    and ca: "calls = (if called then t # rest else rest)"
    by (auto split: if_splits option.splits)
  from Cons.prems(1) x have nd: "ev \<noteq> ChainDepsChange" and nds: "\<forall>x\<in>set evs. snd x \<noteq> ChainDepsChange"
    by simp_all
  from Cons.IH [OF nds re] have "length rest \<le> chain_pending c1" .
  with chain_step_pending [OF nd st] ca show ?case by (auto split: if_splits)
qed

lemma chain_on_time:
  assumes "0 \<le> delay e" "0 \<le> timeout_of (duration e)"
  shows "chain_run e t0
           [(t0 + delay e, ChainStartTimer),
            (t0 + delay e + timeout_of (duration e), ChainExplodeTimer),
            (t0 + delay e + timeout_of (duration e) + 500, ChainCompleteTimer)]
           (chain_mount t0 e)
         = Some [t0 + delay e + timeout_of (duration e) + 500]"
  using assms by (simp add: chain_mount_def)

subsection \<open>Instance ids, the tracker and the frame-driven instances\<close>

lemma decimal_inject:
  assumes "decimal a = decimal b"
  shows "a = b"
proof -
  from assms have "parse_digits 10 0 False (decimal a) = parse_digits 10 0 False (decimal b)"
    by (rule arg_cong)
  then show ?thesis by (simp only: parse_digits_token option.inject)
qed

lemma split_none: "c \<notin> set xs \<Longrightarrow> split c xs = [xs]"
  by (induction xs) auto

lemma dashed_inject:
  assumes "decimal i @ CHR ''-'' # decimal j = decimal i' @ CHR ''-'' # decimal j'"
  shows "i = i' \<and> j = j'"
proof -
  have "split CHR ''-'' (decimal i @ CHR ''-'' # decimal j) = [decimal i, decimal j]" for i j
    by (simp add: split_decimal split_none decimal_no_dash)
  with assms have "[decimal i, decimal j] = [decimal i', decimal j']"
    by metis
  then show ?thesis by (simp add: decimal_inject)
qed

lemma map_enumerate_index:
  "map (\<lambda>p. g (fst p)) (enumerate 0 xs) = map g [0..<length xs]"
proof -
  have "map (\<lambda>p. g (fst p)) (enumerate 0 xs) = map g (map fst (enumerate 0 xs))"
    by (simp only: map_map comp_def)
  also have "\<dots> = map g [0..<length xs]"
    by (simp only: map_fst_enumerate) simp
  finally show ?thesis .
qed

lemma beam_ids:
  "map effect_id (executeAttack 1 ts shipPos rnd) = map (\<lambda>i. ''beam-'' @ decimal i) [0..<length ts]"
proof -
  have "map effect_id (executeAttack 1 ts shipPos rnd)
      = map (\<lambda>p. ''beam-'' @ decimal (fst p)) (enumerate 0 ts)"
    by (simp add: executeAttack_def beam_effect_def split_beta comp_def)
  also note map_enumerate_index [of "\<lambda>i. ''beam-'' @ decimal i" ts]
  finally show ?thesis .
qed

lemma missile_ids:
  "map effect_id (executeAttack 3 ts shipPos rnd) = map (\<lambda>i. ''missile-'' @ decimal i) [0..<length ts]"
proof -
  have "map effect_id (executeAttack 3 ts shipPos rnd)
      = map (\<lambda>p. ''missile-'' @ decimal (fst p)) (enumerate 0 ts)"
    by (simp add: executeAttack_def missile_effect_def split_beta comp_def)
  also note map_enumerate_index [of "\<lambda>i. ''missile-'' @ decimal i" ts]
  finally show ?thesis .
qed

lemma gatling_ids:
  "map effect_id (executeAttack 0 ts shipPos rnd)
     = map (\<lambda>(i, j). ''gatling-'' @ decimal i @ ''-'' @ decimal j)
         (List.product [0..<length ts] [0..<5])"
proof -
  let ?row = "\<lambda>i. map (\<lambda>j. ''gatling-'' @ decimal i @ ''-'' @ decimal j) [0..<5]"
  have "map effect_id (executeAttack 0 ts shipPos rnd)
      = concat (map (\<lambda>p. ?row (fst p)) (enumerate 0 ts))"
    by (simp add: executeAttack_def gatling_effect_def split_beta comp_def map_concat)
  also have "\<dots> = concat (map ?row [0..<length ts])"
    using map_enumerate_index [of ?row ts] by (rule arg_cong)
  also have "\<dots> = map (\<lambda>(i, j). ''gatling-'' @ decimal i @ ''-'' @ decimal j)
         (List.product [0..<length ts] [0..<5])"
    by (simp add: product_concat_map map_concat comp_def)
  finally show ?thesis .
qed

lemma executeAttack_distinct_ids: "distinct (map effect_id (executeAttack w ts shipPos rnd))"
proof -
  consider "w = 0" | "w = 1" | "w = 2" | "w = 3" | "w > 3" by linarith
  then show ?thesis
  proof cases
    case 1
    have "inj_on (\<lambda>(i, j). ''gatling-'' @ decimal i @ ''-'' @ decimal j) A" for A
      by (rule inj_onI) (auto dest: dashed_inject)
    with 1 show ?thesis
      by (simp only: gatling_ids distinct_map) (simp add: distinct_product)
  next
    case 2
    have "inj_on (\<lambda>i. ''beam-'' @ decimal i) A" for A
      by (rule inj_onI) (simp add: decimal_inject)
    with 2 show ?thesis by (simp only: beam_ids distinct_map) simp
  next
    case 3
    then show ?thesis by (simp add: executeAttack_def)
  next
    case 4
    have "inj_on (\<lambda>i. ''missile-'' @ decimal i) A" for A
      by (rule inj_onI) (simp add: decimal_inject)
    with 4 show ?thesis by (simp only: missile_ids distinct_map) simp
  next
    case 5
    then show ?thesis by (simp add: executeAttack_def)
  qed
qed

lemma filter_remove1:
  "distinct (map f xs) \<Longrightarrow> x \<in> set xs \<Longrightarrow> filter (\<lambda>e. f e \<noteq> f x) xs = remove1 x xs"
proof (induction xs)
  case Nil
  then show ?case by simp
next
  case (Cons a xs)
  show ?case
  proof (cases "a = x")
    case True
    with Cons.prems have "\<forall>e\<in>set xs. f e \<noteq> f x" by (auto simp add: image_iff)
    with True show ?thesis by simp
  next
    case False
    with Cons.prems have "x \<in> set xs" "f a \<noteq> f x" by auto
    with Cons False show ?thesis by simp
  qed
qed

lemma useFrame_distinct_ids: "distinct_ids s \<Longrightarrow> distinct_ids (fst (useFrame pr now delta rnd s))"
  by (auto simp add: distinct_ids_def useFrame_def cooldown_tick_def approach_case_def
      attack_case_def escape_case_def Let_def executeAttack_distinct_ids
      split: phase.splits prod.splits if_splits)

lemma step_distinct_ids: "distinct_ids s \<Longrightarrow> distinct_ids (fst (step a s))"
proof (cases a)
  case (Frame pr now delta rnd)
  assume "distinct_ids s"
  with Frame show ?thesis by (simp add: useFrame_distinct_ids)
next
  case (Trigger pr now)
  assume "distinct_ids s"
  with Trigger show ?thesis by (auto simp add: distinct_ids_def triggerTeamSpecial_def)
next
  case (EffectComplete pr rendered eid now rtext)
  assume "distinct_ids s"
  with EffectComplete show ?thesis
    by (auto simp add: distinct_ids_def handleEffectComplete_def Let_def distinct_map_filter
        split: option.splits)
next
  case LightningComplete
  then show ?thesis by (simp add: distinct_ids_def handleLightningComplete_def)
next
  case (LightningExplosion now i enemy)
  assume "distinct_ids s"
  with LightningExplosion show ?thesis by (simp add: distinct_ids_def lightning_explosion_def)
next
  case (Cleanup now)
  assume "distinct_ids s"
  with Cleanup show ?thesis by (simp add: distinct_ids_def cleanup_def)
qed

lemma exec_distinct_ids: "distinct_ids s \<Longrightarrow> distinct_ids (fst (exec ops s))"
proof (induction ops arbitrary: s)
  case Nil
  then show ?case by simp
next
  case (Cons a ops)
  from Cons.prems have "distinct_ids (fst (step a s))" by (rule step_distinct_ids)
  then have "distinct_ids (fst (exec ops (fst (step a s))))" by (rule Cons.IH)
  then show ?case by (simp add: split_beta)
qed

lemma reachable_distinct_ids: "distinct_ids (fst (exec ops initial_state))"
  by (rule exec_distinct_ids) (simp add: distinct_ids_def initial_state_def)

lemma handleEffectComplete_removes:
  assumes "distinct_ids s" and "e \<in> set (attackEffects s)"
  shows "attackEffects (handleEffectComplete pr rendered (effect_id e) now rnd_text s)
           = remove1 e (attackEffects s)
     \<and> e \<notin> set (attackEffects (handleEffectComplete pr rendered (effect_id e) now rnd_text s))"
proof -
  have a: "attackEffects (handleEffectComplete pr rendered (effect_id e) now rnd_text s)
      = filter (\<lambda>x. effect_id x \<noteq> effect_id e) (attackEffects s)"
    by (simp add: handleEffectComplete_def Let_def split: option.splits)
  from assms have "filter (\<lambda>x. effect_id x \<noteq> effect_id e) (attackEffects s)
      = remove1 e (attackEffects s)"
    unfolding distinct_ids_def by (rule filter_remove1)
  with a have r: "attackEffects (handleEffectComplete pr rendered (effect_id e) now rnd_text s)
      = remove1 e (attackEffects s)" by simp
  have "e \<notin> set (filter (\<lambda>x. effect_id x \<noteq> effect_id e) (attackEffects s))" by simp
  with a have "e \<notin> set (attackEffects (handleEffectComplete pr rendered (effect_id e) now rnd_text s))"
    by simp
  with r show ?thesis by simp
qed

lemma escape_exit_clears:
  assumes "isActive s" "phase s = escape"
    and "ESCAPE_DURATION \<le> real_of_int (now - phaseStartTime s)"
  shows "attackEffects (fst (useFrame pr now delta rnd s)) = []
     \<and> phase (fst (useFrame pr now delta rnd s)) = idle"
  using assms
  by (simp add: useFrame_def cooldown_tick_def escape_case_def Let_def ESCAPE_DURATION_def
      split: prod.splits)

lemma beam_nth:
  "i < length ts \<Longrightarrow> executeAttack (Suc 0) ts shipPos rnd ! i = beam_effect shipPos i (ts ! i)"
  by (simp add: executeAttack_def nth_enumerate_eq)

lemma missile_silent:
  "\<not> m_active m \<or> m_exploded m \<Longrightarrow> missile_frames ip tp ft nows m = []"
  by (induction nows) (simp_all add: missile_frame_def)

lemma missile_frames_first:
  assumes "m_active m" "\<not> m_exploded m" "0 < ft"
  shows "missile_frames ip tp (Some ft) nows m =
     (case find (\<lambda>t. ft \<le> real_of_int (t - m_startTime m)) nows of
        None \<Rightarrow> []
      | Some t \<Rightarrow> [real_of_int t + 300])"
  using assms
proof (induction nows arbitrary: m)
  case Nil
  then show ?case by simp
next
  case (Cons now nows)
  let ?m1 = "fst (missile_frame ip tp (Some ft) now m)"
  show ?case
  proof (cases "ft \<le> real_of_int (now - m_startTime m)")
    case True
    with Cons.prems have fr: "snd (missile_frame ip tp (Some ft) now m) = Some (real_of_int now + 300)"
      and ex: "m_exploded ?m1"
      by (simp_all add: missile_frame_def Let_def)
    from ex have "missile_frames ip tp (Some ft) nows ?m1 = []"
      by (simp add: missile_silent)
    with fr True show ?thesis by (simp add: Let_def)
  next
    case False
    with Cons.prems have fr: "snd (missile_frame ip tp (Some ft) now m) = None"
      and keep: "m_active ?m1" "\<not> m_exploded ?m1" "m_startTime ?m1 = m_startTime m"
      by (simp_all add: missile_frame_def Let_def)
    from Cons.IH [OF keep(1) keep(2) Cons.prems(3)] fr False keep(3) show ?thesis
      by (simp add: Let_def)
  qed
qed

lemma missile_at_most_once: "length (missile_frames ip tp ft nows m) \<le> 1"
proof (induction nows arbitrary: m)
  case Nil
  then show ?case by simp
next
  case (Cons now nows)
  show ?case
  proof (cases "snd (missile_frame ip tp ft now m)")
    case None
    with Cons.IH [of "fst (missile_frame ip tp ft now m)"] show ?thesis by (simp add: Let_def)
  next
    case (Some due)
    then have "m_exploded (fst (missile_frame ip tp ft now m))"
      by (auto simp add: missile_frame_def Let_def split: option.splits if_splits)
    then have "missile_frames ip tp ft nows (fst (missile_frame ip tp ft now m)) = []"
      by (simp add: missile_silent)
    with Some show ?thesis by (simp add: Let_def)
  qed
qed

lemma far_projectile_eq:
  "far_projectile = gatling_effect (Vector3 5 2 0) (\<lambda>k. 1/2) 0
       \<lparr>target_id = ''far'', position = Vector3 5 2 (-1000)\<rparr> 0"
proof -
  have "far_targets \<noteq> []" by (simp add: far_targets_def)
  then show ?thesis
    by (simp add: far_projectile_def arena_entry_state executeAttack_def far_targets_def upt_rec)
qed

lemma far_projectile_fields:
  "effect_id far_projectile = ''gatling-0-0''"
  "delay far_projectile = 0"
  "startPosition far_projectile = Some (Vector3 5 2 0)"
  "targetPosition far_projectile = Some (Vector3 5 2 (-1000))"
  by (simp_all add: far_projectile_eq gatling_effect_def add_v_def decimal_small digit_char_def)

lemma far_projectile_tracked:
  "far_projectile \<in> set (attackEffects (fst (exec (arena_entry far_targets 0) initial_state)))"
proof -
  have "far_targets \<noteq> []" by (simp add: far_targets_def)
  then show ?thesis
    by (simp add: far_projectile_eq arena_entry_state executeAttack_def far_targets_def upt_rec)
qed

lemma far_projectile_start:
  "gatling_activate (Vector3 5 2 0) (Vector3 5 2 (-1000)) (gatling_mount (Vector3 5 2 0))
     = \<lparr>g_active = True, g_position = Vector3 5 2 0, g_direction = Vector3 0 0 (-1)\<rparr>"
  by (simp add: gatling_activate_def gatling_mount_def normalize_v_def subVectors_def
      length_v_z multiplyScalar_def)

lemma gatling_far_frames:
  assumes "g_active g" "g_position g = Vector3 5 2 z" "g_direction g = Vector3 0 0 (-1)"
    and "z \<le> 0" and "- 998 \<le> z - 12 * real (length rs)"
  shows "gatling_frames (Vector3 5 2 0) (Vector3 5 2 (-1000)) (map (\<lambda>r. (r, 1/10)) rs) g
           = replicate (length rs) False"
  using assms
proof (induction rs arbitrary: g z)
  case Nil
  then show ?case by simp
next
  case (Cons r rs)
  let ?g0 = "if r then gatling_render (Vector3 5 2 0) g else g"
  let ?z0 = "if r then 0 else z"
  let ?g1 = "fst (gatling_frame (Vector3 5 2 (-1000)) (1/10) ?g0)"
  from Cons.prems have g0: "g_active ?g0" "g_position ?g0 = Vector3 5 2 ?z0"
    "g_direction ?g0 = Vector3 0 0 (-1)"
    by (simp_all add: gatling_render_def)
  from Cons.prems have z0: "?z0 \<le> 0" "- 998 \<le> ?z0 - 12 - 12 * real (length rs)"
    by (simp_all add: algebra_simps)
  from g0 have g1: "g_active ?g1" "g_position ?g1 = Vector3 5 2 (?z0 - 12)"
    "g_direction ?g1 = Vector3 0 0 (-1)"
    by (simp_all add: gatling_frame_def Let_def add_v_def multiplyScalar_def gatling_speed_def)
  from z0 have z1: "?z0 - 12 \<le> 0" by simp
  from z0 have "2 \<le> ?z0 - 12 + 1000" by simp
  then have far: "\<not> \<bar>?z0 - 12 - (- 1000)\<bar> < 2" by simp
  from g0 have "snd (gatling_frame (Vector3 5 2 (-1000)) (1/10) ?g0)
      \<longleftrightarrow> distanceTo (Vector3 5 2 (?z0 - 12)) (Vector3 5 2 (-1000)) < 2"
    by (simp add: gatling_frame_def Let_def add_v_def multiplyScalar_def gatling_speed_def)
  with far have nosig: "\<not> snd (gatling_frame (Vector3 5 2 (-1000)) (1/10) ?g0)"
    by (simp add: distanceTo_z)
  from Cons.IH [OF g1 z1 z0(2)] nosig show ?case by (simp add: Let_def)
qed

lemma beam_length: "length (executeAttack (Suc 0) ts shipPos rnd) = length ts"
  by (simp add: executeAttack_def)

lemma crowd_beam_eq: "crowd_beam = beam_effect (Vector3 5 2 0) 79 (beam_targets 80 ! 79)"
proof -
  have n: "beam_targets 80 \<noteq> []" "length (beam_targets 80) = 80"
    by (simp_all add: beam_targets_def)
  then show ?thesis
    by (simp add: crowd_beam_def arena_entry_state beam_nth)
qed

lemma crowd_beam_fields:
  "delay crowd_beam = 3950"
  "duration crowd_beam = Some 100"
  "effect_type crowd_beam = beam"
  by (simp_all add: crowd_beam_eq beam_effect_def BEAM_LOCK_DURATION_def)

lemma crowd_beam_tracked:
  "crowd_beam \<in> set (attackEffects (fst (exec (arena_entry (beam_targets 80) 1) initial_state)))"
proof -
  have n: "beam_targets 80 \<noteq> []" "length (beam_targets 80) = 80"
    by (simp_all add: beam_targets_def)
  then have "79 < length (attackEffects (fst (exec (arena_entry (beam_targets 80) 1) initial_state)))"
    by (simp add: arena_entry_state beam_length)
  then show ?thesis unfolding crowd_beam_def by (rule nth_mem)
qed

lemma far_never_close:
  "gatling_frames (Vector3 5 2 0) (Vector3 5 2 (-1000)) (replicate n (r, 1/10))
       (gatling_activate (Vector3 5 2 0) (Vector3 5 2 (-1000)) (gatling_mount (Vector3 5 2 0)))
     = replicate n False" if "n \<le> 83"
proof -
  have "gatling_frames (Vector3 5 2 0) (Vector3 5 2 (-1000))
          (map (\<lambda>r. (r, 1/10)) (replicate n r))
          \<lparr>g_active = True, g_position = Vector3 5 2 0, g_direction = Vector3 0 0 (-1)\<rparr>
        = replicate (length (replicate n r)) False"
    using that by (intro gatling_far_frames [where z = 0]) simp_all
  then show ?thesis by (simp add: far_projectile_start)
qed

lemma arena_no_completion: "filter is_completion (arena_run ts w) = []"
  by (simp add: arena_run_def arena_dwell_def arena_entry_def arena_frame_def filter_empty_conv)


lemma crowd_beam_mount:
  "beam_mount 1000 crowd_beam =
     \<lparr>b_mounted = True, b_active = False, b_completed = False,
      b_startTimer = Some 4950, b_endTimers = []\<rparr>"
  by (simp add: beam_mount_def crowd_beam_fields)

subsection \<open>Completion of effect instances\<close>

text \<open>
  Claim C3, as the code has it. In every reachable state a completion callback for a
  tracked instance removes that instance, and only it, from the live set, whatever
  render the callback was created in (the ids generated for one activation are pairwise
  distinct); \<open>handleLightningComplete\<close> empties the live set. A chain instance mounted at
  \<open>t0\<close> calls its completion callback never before \<open>t0 + delay + duration + 500\<close>, at most
  once as long as its effect is not run again, and exactly once, at that time, when its
  effect is not run again and its three timers fire when due; a beam instance likewise
  with \<open>t0 + delay + duration\<close> and its two timers. A missile sets its one completion timer (300) on the first frame on
  which its flight time has elapsed, and on no other frame. A gatling projectile calls
  the completion callback on a frame only when it is active and then closer than 2 to
  its target. Completion is not guaranteed: the frame that leaves the escape phase
  empties the live set whatever is still in it.
\<close>

theorem effect_completion:
  assumes "s = fst (exec ops initial_state)"
  shows "(e \<in> set (attackEffects s) \<longrightarrow>
            attackEffects (handleEffectComplete pr rendered (effect_id e) now rnd_text s)
              = remove1 e (attackEffects s)
            \<and> e \<notin> set (attackEffects
                  (handleEffectComplete pr rendered (effect_id e) now rnd_text s)))
     \<and> attackEffects (fst (handleLightningComplete s)) = []
     \<and> distinct (map effect_id (executeAttack w ts shipPos rnd))
     \<and> (chain_run ce t0 cevs (chain_mount t0 ce) = Some ccalls \<longrightarrow>
            (\<forall>c\<in>set ccalls. t0 + delay ce + timeout_of (duration ce) + 500 \<le> c)
            \<and> ((\<forall>x\<in>set cevs. snd x \<noteq> ChainDepsChange) \<longrightarrow> length ccalls \<le> 1))
     \<and> (0 \<le> delay ce \<and> 0 \<le> timeout_of (duration ce) \<longrightarrow>
            chain_run ce t0
              [(t0 + delay ce, ChainStartTimer),
               (t0 + delay ce + timeout_of (duration ce), ChainExplodeTimer),
               (t0 + delay ce + timeout_of (duration ce) + 500, ChainCompleteTimer)]
              (chain_mount t0 ce)
            = Some [t0 + delay ce + timeout_of (duration ce) + 500])
     \<and> (beam_run be t0 bevs (beam_mount t0 be) = Some bcalls \<longrightarrow>
            (\<forall>c\<in>set bcalls. t0 + delay be + timeout_of (duration be) \<le> c)
            \<and> ((\<forall>x\<in>set bevs. snd x \<noteq> BeamDepsChange) \<longrightarrow> length bcalls \<le> 1))
     \<and> (0 \<le> delay be \<and> 0 \<le> timeout_of (duration be) \<longrightarrow>
            beam_run be t0
              [(t0 + delay be, BeamStartTimer),
               (t0 + delay be + timeout_of (duration be), BeamEndTimer)]
              (beam_mount t0 be)
            = Some [t0 + delay be + timeout_of (duration be)])
     \<and> length (missile_frames ip tp ft nows m) \<le> 1
     \<and> (m_active m \<and> \<not> m_exploded m \<and> 0 < ft' \<longrightarrow>
            missile_frames ip tp (Some ft') nows m =
              (case find (\<lambda>t. ft' \<le> real_of_int (t - m_startTime m)) nows of
                 None \<Rightarrow> []
               | Some t \<Rightarrow> [real_of_int t + 300]))
     \<and> (snd (gatling_frame gp delta g) \<longrightarrow>
            g_active g
            \<and> distanceTo (add_v (g_position g)
                   (multiplyScalar (g_direction g) (gatling_speed * delta))) gp < 2)
     \<and> (isActive s \<and> phase s = escape
          \<and> ESCAPE_DURATION \<le> real_of_int (now - phaseStartTime s) \<longrightarrow>
            attackEffects (fst (useFrame pr now delta rnd s)) = []
            \<and> phase (fst (useFrame pr now delta rnd s)) = idle)"
proof -
  from assms have d: "distinct_ids s" by (simp add: reachable_distinct_ids)
  have g: "snd (gatling_frame gp delta g) \<longrightarrow>
            g_active g
            \<and> distanceTo (add_v (g_position g)
                   (multiplyScalar (g_direction g) (gatling_speed * delta))) gp < 2"
    by (simp add: gatling_frame_def Let_def)
  have l: "attackEffects (fst (handleLightningComplete s)) = []"
    by (simp add: handleLightningComplete_def)
  have c1: "(\<forall>c\<in>set ccalls. t0 + delay ce + timeout_of (duration ce) + 500 \<le> c)
      \<and> ((\<forall>x\<in>set cevs. snd x \<noteq> ChainDepsChange) \<longrightarrow> length ccalls \<le> 1)"
    if r: "chain_run ce t0 cevs (chain_mount t0 ce) = Some ccalls"
  proof -
    have "chain_pending (chain_mount t0 ce) = 1"
      by (simp add: chain_pending_def chain_mount_def)
    with chain_run_pending [of cevs ce t0 "chain_mount t0 ce" ccalls] r
    have "(\<forall>x\<in>set cevs. snd x \<noteq> ChainDepsChange) \<longrightarrow> length ccalls \<le> 1" by simp
    with chain_run_not_before [OF order_refl chain_mount_not_before r] show ?thesis by simp
  qed
  have b1: "(\<forall>c\<in>set bcalls. t0 + delay be + timeout_of (duration be) \<le> c)
      \<and> ((\<forall>x\<in>set bevs. snd x \<noteq> BeamDepsChange) \<longrightarrow> length bcalls \<le> 1)"
    if r: "beam_run be t0 bevs (beam_mount t0 be) = Some bcalls"
  proof -
    have "beam_pending (beam_mount t0 be) = 1"
      by (simp add: beam_pending_def beam_mount_def)
    with beam_run_pending [of bevs be t0 "beam_mount t0 be" bcalls] r
    have "(\<forall>x\<in>set bevs. snd x \<noteq> BeamDepsChange) \<longrightarrow> length bcalls \<le> 1" by simp
    with beam_run_not_before [OF order_refl beam_mount_not_before r] show ?thesis by simp
  qed
  from handleEffectComplete_removes [OF d, of e pr rendered now rnd_text]
    l executeAttack_distinct_ids [of w ts shipPos rnd]
    c1 chain_on_time [of ce t0] b1 beam_on_time [of be t0]
    missile_at_most_once [of ip tp ft nows m]
    missile_frames_first [of m ft' ip tp nows]
    g escape_exit_clears [of s now pr delta rnd]
  show ?thesis by blast
qed

theorem effect_completion_witness:
  "far_projectile \<in> set (attackEffects (fst (exec (arena_entry far_targets 0) initial_state)))
   \<and> far_projectile \<notin> set (attackEffects
         (handleEffectComplete (arena_props far_targets 0)
            (attackEffects (fst (exec (arena_entry far_targets 0) initial_state)))
            (effect_id far_projectile) 1500 ''0.25''
            (fst (exec (arena_entry far_targets 0) initial_state))))
   \<and> chain_run (lightning_effect (Vector3 5 2 0) scenario_targets) 1000
         [(1000, ChainStartTimer), (1600, ChainExplodeTimer), (2100, ChainCompleteTimer)]
         (chain_mount 1000 (lightning_effect (Vector3 5 2 0) scenario_targets)) = Some [2100]
   \<and> ChainDepsChange \<notin> set (map snd [(1000::real, ChainStartTimer), (1600, ChainExplodeTimer),
                 (2100, ChainCompleteTimer)])
   \<and> 1000 + delay (lightning_effect (Vector3 5 2 0) scenario_targets)
            + timeout_of (duration (lightning_effect (Vector3 5 2 0) scenario_targets)) + 500
        \<le> 2100
   \<and> length [2100::real] \<le> 1
   \<and> beam_run (beam_effect (Vector3 5 2 0) 2 (hd scenario_targets)) 1000
         [(1100, BeamStartTimer), (1200, BeamEndTimer)]
         (beam_mount 1000 (beam_effect (Vector3 5 2 0) 2 (hd scenario_targets))) = Some [1200]
   \<and> BeamDepsChange \<notin> set (map snd [(1100::real, BeamStartTimer), (1200, BeamEndTimer)])
   \<and> 1000 + delay (beam_effect (Vector3 5 2 0) 2 (hd scenario_targets))
            + timeout_of (duration (beam_effect (Vector3 5 2 0) 2 (hd scenario_targets)))
        \<le> 1200
   \<and> length [1200::real] \<le> 1
   \<and> missile_frames (Vector3 5 2 0) (Vector3 0 0 (-30)) (Some 500) [1100, 1500, 1600]
         \<lparr>m_active = True, m_exploded = False, m_startTime = 1000,
           m_position = Vector3 5 2 0\<rparr> = [1800]
   \<and> snd (gatling_frame (Vector3 0 0 (-30)) (1/100)
         \<lparr>g_active = True, g_position = Vector3 0 0 (-28), g_direction = Vector3 0 0 (-1)\<rparr>)
   \<and> distanceTo (add_v (Vector3 0 0 (-28))
         (multiplyScalar (Vector3 0 0 (-1)) (gatling_speed * (1/100)))) (Vector3 0 0 (-30)) < 2
   \<and> isActive (fst (exec (take 3 (scenario_cycle 0)) initial_state))
   \<and> phase (fst (exec (take 3 (scenario_cycle 0)) initial_state)) = escape
   \<and> ESCAPE_DURATION
        \<le> real_of_int (4501 - phaseStartTime (fst (exec (take 3 (scenario_cycle 0)) initial_state)))
   \<and> attackEffects (fst (useFrame (scenario_props 0) 4501 (1/10) (\<lambda>k. 1/2)
         (fst (exec (take 3 (scenario_cycle 0)) initial_state)))) = []"
proof -
  let ?s = "fst (exec (arena_entry far_targets 0) initial_state)"
  let ?e = "fst (exec (take 3 (scenario_cycle 0)) initial_state)"
  let ?m = "\<lparr>m_active = True, m_exploded = False, m_startTime = 1000,
           m_position = Vector3 5 2 0\<rparr>"
  let ?g = "\<lparr>g_active = True, g_position = Vector3 0 0 (-28), g_direction = Vector3 0 0 (-1)\<rparr>"
  let ?ce = "lightning_effect (Vector3 5 2 0) scenario_targets"
  let ?be = "beam_effect (Vector3 5 2 0) 2 (hd scenario_targets)"
  let ?cevs = "[(1000::real, ChainStartTimer), (1600, ChainExplodeTimer),
      (2100, ChainCompleteTimer)]"
  let ?bevs = "[(1100::real, BeamStartTimer), (1200, BeamEndTimer)]"
  have ce: "delay ?ce = 0" "timeout_of (duration ?ce) = 600"
    by (simp_all add: lightning_effect_def Let_def timeout_of_def LIGHTNING_CHAIN_DURATION_def)
  have be: "delay ?be = 100" "timeout_of (duration ?be) = 100"
    by (simp_all add: beam_effect_def timeout_of_def BEAM_LOCK_DURATION_def)
  have mh: "m_active ?m \<and> \<not> m_exploded ?m \<and> (0::real) < 500" by simp
  have eh: "isActive ?e \<and> phase ?e = escape
      \<and> ESCAPE_DURATION \<le> real_of_int (4501 - phaseStartTime ?e)"
    by (simp add: scenario_escape_state ESCAPE_DURATION_def)
  have gh: "snd (gatling_frame (Vector3 0 0 (-30)) (1/100) ?g)"
    by (simp add: gatling_frame_def Let_def gatling_speed_def add_v_def multiplyScalar_def
        distanceTo_z)
  have nc: "\<forall>x\<in>set ?cevs. snd x \<noteq> ChainDepsChange"
    and nb: "\<forall>x\<in>set ?bevs. snd x \<noteq> BeamDepsChange"
    by simp_all
  note t1 = effect_completion [OF refl, where ops = "arena_entry far_targets 0"
      and e = far_projectile and pr = "arena_props far_targets 0"
      and rendered = "attackEffects ?s" and now = 1500 and rnd_text = "''0.25''"
      and ce = ?ce and be = ?be and ?t0.0 = 1000
      and cevs = ?cevs and ccalls = "[2100]" and bevs = ?bevs and bcalls = "[1200]"
      and m = ?m and ft' = 500 and nows = "[1100, 1500, 1600]"
      and ip = "Vector3 5 2 0" and tp = "Vector3 0 0 (-30)"
      and gp = "Vector3 0 0 (-30)" and delta = "1/100" and g = ?g]
  note t2 = effect_completion [OF refl, where ops = "take 3 (scenario_cycle 0)"
      and pr = "scenario_props 0" and now = 4501 and delta = "1/10" and rnd = "\<lambda>k. 1/2"]
  note rest0 = t1 [THEN conjunct2, THEN conjunct2, THEN conjunct2]
  note rest1 = rest0 [THEN conjunct2]
  note rest2 = rest1 [THEN conjunct2]
  note rest3 = rest2 [THEN conjunct2]
  note rest4 = rest3 [THEN conjunct2, THEN conjunct2]
  note a = t1 [THEN conjunct1, THEN mp, OF far_projectile_tracked, THEN conjunct2]
  have pc: "0 \<le> delay ?ce \<and> 0 \<le> timeout_of (duration ?ce)"
    and pb: "0 \<le> delay ?be \<and> 0 \<le> timeout_of (duration ?be)"
    by (simp_all add: ce be)
  have n: "(1000::real) + 0 = 1000" "(1000::real) + 600 = 1600" "(1600::real) + 500 = 2100"
    "(1000::real) + 100 = 1100" "(1100::real) + 100 = 1200"
    by simp_all
  have c: "chain_run ?ce 1000 ?cevs (chain_mount 1000 ?ce) = Some [2100]"
    using rest1 [THEN conjunct1, THEN mp, OF pc] unfolding ce n .
  have b: "beam_run ?be 1000 ?bevs (beam_mount 1000 ?be) = Some [1200]"
    using rest3 [THEN conjunct1, THEN mp, OF pb] unfolding be n .
  note cb = rest0 [THEN conjunct1, THEN mp, OF c]
  from cb [THEN conjunct1]
  have c1: "1000 + delay ?ce + timeout_of (duration ?ce) + 500 \<le> 2100" by simp
  have nc': "ChainDepsChange \<notin> set (map snd ?cevs)" by simp
  note c2 = cb [THEN conjunct2, THEN mp, OF nc]
  note bb = rest2 [THEN conjunct1, THEN mp, OF b]
  from bb [THEN conjunct1]
  have b1: "1000 + delay ?be + timeout_of (duration ?be) \<le> 1200" by simp
  have nb': "BeamDepsChange \<notin> set (map snd ?bevs)" by simp
  note b2 = bb [THEN conjunct2, THEN mp, OF nb]
  from rest4 [THEN conjunct1] mh
  have "missile_frames (Vector3 5 2 0) (Vector3 0 0 (-30)) (Some 500)
         [1100, 1500, 1600] ?m =
       (case find (\<lambda>t. 500 \<le> real_of_int (t - m_startTime ?m)) [1100, 1500, 1600] of
          None \<Rightarrow> [] | Some t \<Rightarrow> [real_of_int t + 300])"
    by blast
  then have m: "missile_frames (Vector3 5 2 0) (Vector3 0 0 (-30)) (Some 500)
         [1100, 1500, 1600] ?m = [1800]"
    by simp
  from rest4 [THEN conjunct2, THEN conjunct1, THEN mp, OF gh]
  have g: "distanceTo (add_v (Vector3 0 0 (-28))
         (multiplyScalar (Vector3 0 0 (-1)) (gatling_speed * (1/100)))) (Vector3 0 0 (-30)) < 2"
    by simp
  from t2 [THEN conjunct2, THEN conjunct2, THEN conjunct2, THEN conjunct2, THEN conjunct2,
      THEN conjunct2, THEN conjunct2, THEN conjunct2, THEN conjunct2, THEN conjunct2] eh
  have x: "attackEffects (fst (useFrame (scenario_props 0) 4501 (1/10) (\<lambda>k. 1/2) ?e)) = []"
    by blast
  show ?thesis
    apply (intro conjI)
    apply (rule far_projectile_tracked)
    apply (rule a)
    apply (rule c)
    apply (rule nc')
    apply (rule c1)
    apply (rule c2)
    apply (rule b)
    apply (rule nb')
    apply (rule b1)
    apply (rule b2)
    apply (rule m)
    apply (rule gh)
    apply (rule g)
    using eh x apply simp_all
    done
qed

text \<open>
  The claim as stated (every instance created at the entry of the attack phase
  eventually signals completion) fails for two variants. RapidBurst: the projectile for a
  target 1000 ahead of the attack pose is never closer than 2 to it on any of the 36
  frames up to the clear at the exit of the escape phase, whether or not the component
  is rendered again between frames. PrecisionBeam: with a snapshot of 80 targets the
  beam of index 79 has delay 3950; mounted at 1000 at the earliest, its start timer is
  due at 4950, has not fired when the escape phase exits at 4600, and is cleared by the
  unmount. In both runs the tracker receives no completion callback and the live set
  ends empty.
\<close>

theorem effect_completion_counterexample:
  "far_projectile \<in> set (attackEffects (fst (exec (arena_entry far_targets 0) initial_state)))
   \<and> effect_id far_projectile = ''gatling-0-0''
   \<and> delay far_projectile = 0
   \<and> startPosition far_projectile = Some (Vector3 5 2 0)
   \<and> targetPosition far_projectile = Some (Vector3 5 2 (-1000))
   \<and> length dwell_times + length escape_times = 36
   \<and> gatling_frames (Vector3 5 2 0) (Vector3 5 2 (-1000)) (replicate 36 (False, 1/10))
         (gatling_activate (Vector3 5 2 0) (Vector3 5 2 (-1000)) (gatling_mount (Vector3 5 2 0)))
       = replicate 36 False
   \<and> gatling_frames (Vector3 5 2 0) (Vector3 5 2 (-1000)) (replicate 36 (True, 1/10))
         (gatling_activate (Vector3 5 2 0) (Vector3 5 2 (-1000)) (gatling_mount (Vector3 5 2 0)))
       = replicate 36 False
   \<and> filter is_completion (arena_run far_targets 0) = []
   \<and> attackEffects (fst (exec (arena_run far_targets 0) initial_state)) = []
   \<and> crowd_beam \<in> set (attackEffects (fst (exec (arena_entry (beam_targets 80) 1) initial_state)))
   \<and> delay crowd_beam = 3950
   \<and> b_startTimer (beam_mount 1000 crowd_beam) = Some 4950
   \<and> beam_step crowd_beam 4600 BeamStartTimer (beam_mount 1000 crowd_beam) = None
   \<and> beam_run crowd_beam 1000 [(4600, BeamUnmount)] (beam_mount 1000 crowd_beam) = Some []
   \<and> beam_step crowd_beam 4600 BeamUnmount (beam_mount 1000 crowd_beam)
       = Some (\<lparr>b_mounted = False, b_active = False, b_completed = False,
                b_startTimer = None, b_endTimers = []\<rparr>, False)
   \<and> filter is_completion (arena_run (beam_targets 80) 1) = []
   \<and> attackEffects (fst (exec (arena_run (beam_targets 80) 1) initial_state)) = []"
proof -
  have len: "length dwell_times + length escape_times = 36"
    by (simp add: dwell_times_def escape_times_def)
  have ft: "far_targets \<noteq> []" by (simp add: far_targets_def)
  have bt: "beam_targets 80 \<noteq> []" by (simp add: beam_targets_def)
  have b1: "b_startTimer (beam_mount 1000 crowd_beam) = Some 4950"
    and b2: "beam_step crowd_beam 4600 BeamStartTimer (beam_mount 1000 crowd_beam) = None"
    and b3: "beam_run crowd_beam 1000 [(4600, BeamUnmount)] (beam_mount 1000 crowd_beam) = Some []"
    and b4: "beam_step crowd_beam 4600 BeamUnmount (beam_mount 1000 crowd_beam)
       = Some (\<lparr>b_mounted = False, b_active = False, b_completed = False,
                b_startTimer = None, b_endTimers = []\<rparr>, False)"
    by (simp_all add: crowd_beam_mount)
  from far_projectile_tracked far_projectile_fields len
    far_never_close [of 36 False] far_never_close [of 36 True]
    arena_no_completion [of far_targets 0] arena_run_state [OF ft, of 0]
    crowd_beam_tracked crowd_beam_fields(1) b1 b2 b3 b4
    arena_no_completion [of "beam_targets 80" 1] arena_run_state [OF bt, of 1]
  show ?thesis by simp
qed

subsection \<open>The attack dwell and completion times\<close>




end
